theory Spec2Isabelle
  imports Complex_Main "HOL-Library.AList"
begin

section \<open>Regular expressions as the patterns of \<open>ls.py\<close> use them\<close>

text \<open>
  The four patterns of class \<open>Ls\<close> are sequences of character classes under a greedy
  quantifier, capture groups around such sequences, literals and a final \<open>$\<close>.
  They have no alternation and no quantified group, so a pattern is a list of tokens and
  Python's backtracking matcher is a recursion over that list: a greedy quantifier takes the
  longest run first and gives characters back one at a time.
  Characters are 8-bit; the classes are the ASCII ones.
\<close>

definition newline :: char where
  "newline = CHR 0x0A"

definition is_space :: "char \<Rightarrow> bool" where
  \<comment> \<open>\<open>\s\<close>: space, \<open>\t \n \v \f \r\<close>\<close>
  "is_space c = (c \<in> set [CHR '' '', CHR 0x09, CHR 0x0A, CHR 0x0B, CHR 0x0C, CHR 0x0D])"

definition is_digit :: "char \<Rightarrow> bool" where
  \<comment> \<open>\<open>\d\<close>\<close>
  "is_digit c = (c \<in> set ''0123456789'')"

definition is_word :: "char \<Rightarrow> bool" where
  \<comment> \<open>\<open>\w\<close>\<close>
  "is_word c = (c \<in> set ''abcdefghijklmnopqrstuvwxyzABCDEFGHIJKLMNOPQRSTUVWXYZ0123456789_'')"

datatype cclass =
    Space        \<comment> \<open>\<open>\s\<close>\<close>
  | NonSpace     \<comment> \<open>\<open>\S\<close>\<close>
  | Digit        \<comment> \<open>\<open>\d\<close>\<close>
  | WordOrDash   \<comment> \<open>\<open>[\w-]\<close>\<close>
  | AnyChar      \<comment> \<open>\<open>.\<close>: any character but a newline\<close>
  | Lit char     \<comment> \<open>a literal character\<close>

fun in_class :: "cclass \<Rightarrow> char \<Rightarrow> bool" where
  "in_class Space c = is_space c"
| "in_class NonSpace c = (\<not> is_space c)"
| "in_class Digit c = is_digit c"
| "in_class WordOrDash c = (is_word c \<or> c = CHR ''-'')"
| "in_class AnyChar c = (c \<noteq> newline)"
| "in_class (Lit a) c = (c = a)"

datatype tok =
    Rep cclass nat "nat option"   \<comment> \<open>greedy \<open>{lo,hi}\<close> of a class; \<open>hi = None\<close> is unbounded\<close>
  | Open nat                      \<comment> \<open>\<open>(\<close> of capture group \<open>n\<close>\<close>
  | Close nat                     \<comment> \<open>\<open>)\<close> of capture group \<open>n\<close>\<close>
  | Eol                           \<comment> \<open>\<open>$\<close>\<close>

type_synonym regex = "tok list"

text \<open>A match object, as far as \<open>group(n)\<close> with \<open>n > 0\<close> reads it: the text of each group.\<close>

type_synonym rmatch = "(nat \<times> string) list"

definition rep_plus :: "cclass \<Rightarrow> tok" where
  "rep_plus c = Rep c 1 None"

definition rep_star :: "cclass \<Rightarrow> tok" where
  "rep_star c = Rep c 0 None"

definition rep_one :: "cclass \<Rightarrow> tok" where
  "rep_one c = Rep c 1 (Some 1)"

definition lit :: "string \<Rightarrow> regex" where
  "lit s = map (\<lambda>c. rep_one (Lit c)) s"

definition grp :: "nat \<Rightarrow> regex \<Rightarrow> regex" where
  "grp n r = Open n # r @ [Close n]"

fun run :: "cclass \<Rightarrow> nat option \<Rightarrow> string \<Rightarrow> nat" where
  \<comment> \<open>how many characters a greedy quantifier takes at first: the longest run, at most \<open>hi\<close>\<close>
  "run c hi [] = 0"
| "run c hi (x # xs) =
     (if hi = Some 0 \<or> \<not> in_class c x then 0
      else Suc (run c (map_option (\<lambda>h. h - 1) hi) xs))"

fun first_some :: "('a \<Rightarrow> 'b option) \<Rightarrow> 'a list \<Rightarrow> 'b option" where
  "first_some f [] = None"
| "first_some f (x # xs) = (case f x of Some y \<Rightarrow> Some y | None \<Rightarrow> first_some f xs)"

fun re_match :: "regex \<Rightarrow> string \<Rightarrow> (nat \<times> string) list \<Rightarrow> rmatch option" where
  \<comment> \<open>the pattern's remaining tokens, the rest of the subject, and for each group
      opened so far the rest of the subject at its \<open>(\<close>\<close>
  "re_match [] s opens = Some []"
| "re_match (Open g # ts) s opens = re_match ts s ((g, s) # opens)"
| "re_match (Close g # ts) s opens =
     (case map_of opens g of
        None \<Rightarrow> None
      | Some s0 \<Rightarrow>
          map_option (\<lambda>gs. (g, take (length s0 - length s) s0) # gs) (re_match ts s opens))"
| "re_match (Eol # ts) s opens =
     (if s = [] \<or> s = [newline] then re_match ts s opens else None)"
| "re_match (Rep c lo hi # ts) s opens =
     first_some (\<lambda>k. re_match ts (drop k s) opens) (rev [lo ..< Suc (run c hi s)])"

fun re_search :: "regex \<Rightarrow> string \<Rightarrow> rmatch option" where
  \<comment> \<open>\<open>compiled.search(string)\<close>: the match at the leftmost position that has one\<close>
  "re_search r [] = re_match r [] []"
| "re_search r (c # cs) =
     (case re_match r (c # cs) [] of Some m \<Rightarrow> Some m | None \<Rightarrow> re_search r cs)"

fun split_acc :: "string \<Rightarrow> string \<Rightarrow> string list" where
  "split_acc cur [] = (if cur = [] then [] else [cur])"
| "split_acc cur (c # cs) =
     (if is_space c then (if cur = [] then split_acc [] cs else cur # split_acc [] cs)
      else split_acc (cur @ [c]) cs)"

definition py_split :: "string \<Rightarrow> string list" where
  \<comment> \<open>\<open>line.split()\<close>: the maximal runs of non-whitespace characters\<close>
  "py_split line = split_acc [] line"

subsection \<open>The patterns of class \<open>Ls\<close>\<close>

definition re_files_list :: regex where
  \<comment> \<open>\<open>\S{2,}\<close>\<close>
  "re_files_list = [Rep NonSpace 2 None]"

definition re_total :: regex where
  \<comment> \<open>\<open>total\s+(\d+\S*)\<close>\<close>
  "re_total = lit ''total'' @ [rep_plus Space] @ grp 1 [rep_plus Digit, rep_star NonSpace]"

definition re_long_prefix :: regex where
  \<comment> \<open>\<open>([\w-]{10})\s+(\d+)\s+(\S+)\s+(\S+)\s+(\S+)\s+(\S.*\S)\s+(\S+)\<close>,
      the part the two long patterns share\<close>
  "re_long_prefix =
     grp 1 [Rep WordOrDash 10 (Some 10)] @ [rep_plus Space] @
     grp 2 [rep_plus Digit] @ [rep_plus Space] @
     grp 3 [rep_plus NonSpace] @ [rep_plus Space] @
     grp 4 [rep_plus NonSpace] @ [rep_plus Space] @
     grp 5 [rep_plus NonSpace] @ [rep_plus Space] @
     grp 6 [rep_one NonSpace, rep_star AnyChar, rep_one NonSpace] @ [rep_plus Space] @
     grp 7 [rep_plus NonSpace]"

definition re_long :: regex where
  \<comment> \<open>\<open>([\w-]{10})\s+(\d+)\s+(\S+)\s+(\S+)\s+(\S+)\s+(\S.*\S)\s+(\S+)\s*$\<close>\<close>
  "re_long = re_long_prefix @ [rep_star Space, Eol]"

definition re_long_links :: regex where
  \<comment> \<open>\<open>([\w-]{10})\s+(\d+)\s+(\S+)\s+(\S+)\s+(\S+)\s+(\S.*\S)\s+(\S+)\s+->\s+(\S+)\s*$\<close>\<close>
  "re_long_links =
     re_long_prefix @ [rep_plus Space] @ lit ''->'' @ [rep_plus Space] @
     grp 8 [rep_plus NonSpace] @ [rep_star Space, Eol]"

section \<open>Python values, exceptions\<close>

datatype pyval = PyStr string | PyInt int | PyNum rat

type_synonym pydict = "(string \<times> pyval) list"

text \<open>
  A \<open>dict\<close> is an association list in insertion order with distinct keys:
  \<open>d[k] = v\<close> is \<open>AList.update k v d\<close>, which replaces the value of a key that
  is there and appends a new key otherwise; \<open>d[k]\<close> is \<open>map_of d k\<close>, with \<open>KeyError\<close>
  for \<open>None\<close>.
\<close>

datatype exn =
    ParsingDone
  | ResultNotAvailableYet
  | KeyError string
  | IndexError
  | AttributeError
  | TypeError
  | ValueError
  | MalformedSize string

section \<open>\<open>RegexHelper\<close> (\<open>moler/cmd/__init__.py\<close>)\<close>

text \<open>
  An object is its instance dictionary. The class body of \<open>RegexHelper\<close> binds names to
  functions; \<open>__init__\<close> and every matching method assign the instance attribute
  \<open>match\<close>. Attribute lookup on an instance finds the instance dictionary before the
  functions of the class.
\<close>

datatype rh_value =
    Function string      \<comment> \<open>a \<open>def\<close> of the class body, by name\<close>
  | NoneObj              \<comment> \<open>\<open>None\<close>\<close>
  | MatchObj rmatch      \<comment> \<open>a match object\<close>

type_synonym regex_helper = "(string \<times> rh_value) list"

definition RegexHelper_class :: "(string \<times> rh_value) list" where
  "RegexHelper_class =
     [(''instance'', NoneObj),
      (''__init__'', Function ''__init__''),
      (''search'', Function ''search''),
      (''search_compiled'', Function ''search_compiled''),
      (''match'', Function ''match''),
      (''match_compiled'', Function ''match_compiled''),
      (''get_match'', Function ''get_match''),
      (''group'', Function ''group''),
      (''get_regex_helper'', Function ''get_regex_helper'')]"

definition getattr :: "regex_helper \<Rightarrow> string \<Rightarrow> exn + rh_value" where
  "getattr h name =
     (case map_of h name of
        Some v \<Rightarrow> Inr v
      | None \<Rightarrow>
          (case map_of RegexHelper_class name of
             Some v \<Rightarrow> Inr v
           | None \<Rightarrow> Inl AttributeError))"

definition of_match :: "rmatch option \<Rightarrow> rh_value" where
  "of_match m = (case m of None \<Rightarrow> NoneObj | Some g \<Rightarrow> MatchObj g)"

definition RegexHelper_init :: regex_helper where
  \<comment> \<open>\<open>self.match = None\<close>\<close>
  "RegexHelper_init = AList.update ''match'' NoneObj []"

definition RegexHelper_search :: "regex \<Rightarrow> string \<Rightarrow> regex_helper \<Rightarrow> rh_value \<times> regex_helper" where
  \<comment> \<open>\<open>self.match = search(pattern, string, flags); return self.match\<close>\<close>
  "RegexHelper_search pattern string h =
     (let m = of_match (re_search pattern string) in (m, AList.update ''match'' m h))"

definition RegexHelper_search_compiled :: "regex \<Rightarrow> string \<Rightarrow> regex_helper \<Rightarrow> rh_value \<times> regex_helper" where
  \<comment> \<open>\<open>self.match = compiled.search(string); return self.match\<close>\<close>
  "RegexHelper_search_compiled compiled string h =
     (let m = of_match (re_search compiled string) in (m, AList.update ''match'' m h))"

definition RegexHelper_match :: "regex \<Rightarrow> string \<Rightarrow> regex_helper \<Rightarrow> rh_value \<times> regex_helper" where
  \<comment> \<open>the body of \<open>def match\<close>: \<open>self.match = match(pattern, string, flags); return self.match\<close>\<close>
  "RegexHelper_match pattern string h =
     (let m = of_match (re_match pattern string []) in (m, AList.update ''match'' m h))"

definition RegexHelper_match_compiled :: "regex \<Rightarrow> string \<Rightarrow> regex_helper \<Rightarrow> rh_value \<times> regex_helper" where
  \<comment> \<open>\<open>self.match = compiled.match(string); return self.match\<close>\<close>
  "RegexHelper_match_compiled compiled string h =
     (let m = of_match (re_match compiled string []) in (m, AList.update ''match'' m h))"

definition RegexHelper_get_match :: "regex_helper \<Rightarrow> exn + rh_value" where
  \<comment> \<open>\<open>return self.match\<close>\<close>
  "RegexHelper_get_match h = getattr h ''match''"

definition RegexHelper_group :: "nat \<Rightarrow> regex_helper \<Rightarrow> exn + string" where
  \<comment> \<open>\<open>return self.match.group(number)\<close>\<close>
  "RegexHelper_group number h =
     (case getattr h ''match'' of
        Inl e \<Rightarrow> Inl e
      | Inr (MatchObj g) \<Rightarrow> (case map_of g number of Some t \<Rightarrow> Inr t | None \<Rightarrow> Inl IndexError)
      | Inr _ \<Rightarrow> Inl AttributeError)"

text \<open>
  A method call \<open>helper.name(args)\<close> on an instance: look the attribute up, then call what
  was found. Calling \<open>None\<close> or a match object raises \<open>TypeError\<close>, as does a call with
  the wrong arguments.
\<close>

datatype rh_args = NoArgs | PatternString regex string | Number nat

datatype rh_result = Value rh_value | Text string

fun call_function :: "string \<Rightarrow> rh_args \<Rightarrow> regex_helper \<Rightarrow> (exn + rh_result) \<times> regex_helper" where
  "call_function name (PatternString r s) h =
     (if name = ''search'' then (let (v, h') = RegexHelper_search r s h in (Inr (Value v), h'))
      else if name = ''search_compiled'' then
        (let (v, h') = RegexHelper_search_compiled r s h in (Inr (Value v), h'))
      else if name = ''match'' then (let (v, h') = RegexHelper_match r s h in (Inr (Value v), h'))
      else if name = ''match_compiled'' then
        (let (v, h') = RegexHelper_match_compiled r s h in (Inr (Value v), h'))
      else (Inl TypeError, h))"
| "call_function name NoArgs h =
     (if name = ''get_match'' then (map_sum id Value (RegexHelper_get_match h), h)
      else (Inl TypeError, h))"
| "call_function name (Number n) h =
     (if name = ''group'' then (map_sum id Text (RegexHelper_group n h), h)
      else (Inl TypeError, h))"

definition invoke :: "string \<Rightarrow> rh_args \<Rightarrow> regex_helper \<Rightarrow> (exn + rh_result) \<times> regex_helper" where
  "invoke name args h =
     (case getattr h name of
        Inl e \<Rightarrow> (Inl e, h)
      | Inr (Function f) \<Rightarrow> call_function f args h
      | Inr _ \<Rightarrow> (Inl TypeError, h))"

fun invoke_all :: "(string \<times> rh_args) list \<Rightarrow> regex_helper \<Rightarrow> regex_helper" where
  \<comment> \<open>the instance after a sequence of method calls, whatever each returned or raised\<close>
  "invoke_all [] h = h"
| "invoke_all ((name, args) # calls) h = invoke_all calls (snd (invoke name args h))"

section \<open>Size tokens\<close>

definition digit_value :: "char \<Rightarrow> nat" where
  "digit_value c =
     (case map_of (zip ''0123456789'' [0, 1, 2, 3, 4, 5, 6, 7, 8, 9]) c of
        Some d \<Rightarrow> d
      | None \<Rightarrow> 0)"

definition digits_value :: "string \<Rightarrow> nat" where
  "digits_value ds = foldl (\<lambda>n c. 10 * n + digit_value c) 0 ds"

definition py_int :: "string \<Rightarrow> exn + int" where
  \<comment> \<open>\<open>int(text)\<close> of a run of decimal digits, the only texts group 2 (\<open>\d+\<close>) holds\<close>
  "py_int t = (if t \<noteq> [] \<and> list_all is_digit t then Inr (int (digits_value t)) else Inl ValueError)"

text \<open>
  Modelled from the spec: \<open>ConverterHelper.to_bytes\<close> (\<open>moler/util/converterhelper.py\<close>
  is not among the sources). The spec: a size token \<open><number><unit?>\<close> where unit is one of
  none, K, M, G, T maps to \<open>number \<times> 1024^unit_index\<close> (\<open>unit_index\<close> 0 for none), exact
  for fractional values like \<open>4.5M\<close>; a malformed size token is a domain error.
  The number is a run of digits with an optional fraction; the value is an exact rational.
  \<open>to_bytes(token)[0]\<close> in \<open>ls.py\<close> selects the byte count, which is what this returns.
\<close>

definition unit_index :: "string \<Rightarrow> nat option" where
  "unit_index u =
     (if u = [] then Some 0
      else map_of [(''K'', 1), (''M'', 2), (''G'', 3), (''T'', 4)] u)"

definition to_bytes :: "string \<Rightarrow> exn + rat" where
  "to_bytes token =
     (let whole = takeWhile is_digit token;
          rest = dropWhile is_digit token;
          frac = (case rest of [] \<Rightarrow> []
                  | c # r \<Rightarrow> if c = CHR ''.'' then takeWhile is_digit r else []);
          unit = (case rest of [] \<Rightarrow> []
                  | c # r \<Rightarrow> if c = CHR ''.'' then dropWhile is_digit r else rest)
      in if whole = [] then Inl (MalformedSize token)
         else (case unit_index unit of
                 None \<Rightarrow> Inl (MalformedSize token)
               | Some i \<Rightarrow>
                   Inr (of_nat (digits_value (whole @ frac)) / 10 ^ length frac * 1024 ^ i)))"

section \<open>The command as an observer\<close>

text \<open>
  Modelled from the spec: the observer side of a command (\<open>ConnectionObserver\<close> and the
  generic command classes are not among the sources). The spec: the state is one of
  Pending, Done-Success, Done-Failure, Cancelled; \<open>done()\<close> is true iff the state is
  terminal; \<open>result()\<close> returns the accumulated result, or fails with
  \<open>ResultNotAvailableYet\<close> if still Pending, or re-raises the stored error if Done-Failure.
\<close>

datatype observer_state = Pending | Done_Success | Done_Failure exn | Cancelled

record ret =
  ret_total :: "pydict option"                        \<comment> \<open>\<open>current_ret["total"]\<close>, when present\<close>
  ret_files :: "(string \<times> pydict) list option"        \<comment> \<open>\<open>current_ret["files"]\<close>, when present\<close>

record ls_state =
  current_ret :: ret
  regex_helper :: regex_helper       \<comment> \<open>\<open>self._regex_helper\<close>\<close>
  obs_state :: observer_state

definition observer_done :: "ls_state \<Rightarrow> bool" where
  "observer_done st = (obs_state st \<noteq> Pending)"

definition result :: "ls_state \<Rightarrow> exn + ret" where
  "result st =
     (case obs_state st of
        Pending \<Rightarrow> Inl ResultNotAvailableYet
      | Done_Failure e \<Rightarrow> Inl e
      | _ \<Rightarrow> Inr (current_ret st))"

text \<open>A method of the command: it returns a value or raises, and leaves a state.\<close>

type_synonym 'a action = "ls_state \<Rightarrow> (exn + 'a) \<times> ls_state"

definition and_then :: "'a action \<Rightarrow> ('a \<Rightarrow> 'b action) \<Rightarrow> 'b action" where
  "and_then a f = (\<lambda>st. case a st of (Inl e, st') \<Rightarrow> (Inl e, st') | (Inr x, st') \<Rightarrow> f x st')"

definition returns :: "'a \<Rightarrow> 'a action" where
  "returns x = (\<lambda>st. (Inr x, st))"

definition raise :: "exn \<Rightarrow> 'a action" where
  "raise e = (\<lambda>st. (Inl e, st))"

definition lift :: "exn + 'a \<Rightarrow> 'a action" where
  "lift r = (\<lambda>st. (r, st))"

definition helper_search_compiled :: "regex \<Rightarrow> string \<Rightarrow> rh_value action" where
  \<comment> \<open>\<open>self._regex_helper.search_compiled(compiled, line)\<close>\<close>
  "helper_search_compiled compiled line =
     (\<lambda>st. let (m, h) = RegexHelper_search_compiled compiled line (regex_helper st)
           in (Inr m, st\<lparr>regex_helper := h\<rparr>))"

definition helper_group :: "nat \<Rightarrow> string action" where
  \<comment> \<open>\<open>self._regex_helper.group(number)\<close>\<close>
  "helper_group number = (\<lambda>st. (RegexHelper_group number (regex_helper st), st))"

definition truthy :: "rh_value \<Rightarrow> bool" where
  \<comment> \<open>\<open>if value:\<close> is false for \<open>None\<close>, true for a match object\<close>
  "truthy v = (v \<noteq> NoneObj)"

definition set_total_field :: "string \<Rightarrow> pyval \<Rightarrow> unit action" where
  \<comment> \<open>\<open>self.current_ret["total"][key] = value\<close>\<close>
  "set_total_field key v =
     (\<lambda>st. case ret_total (current_ret st) of
              None \<Rightarrow> (Inl (KeyError ''total''), st)
            | Some d \<Rightarrow>
                (Inr (), st\<lparr>current_ret := (current_ret st)\<lparr>ret_total := Some (AList.update key v d)\<rparr>\<rparr>))"

definition new_file :: "string \<Rightarrow> unit action" where
  \<comment> \<open>\<open>self.current_ret["files"][filename] = dict()\<close>\<close>
  "new_file filename =
     (\<lambda>st. case ret_files (current_ret st) of
              None \<Rightarrow> (Inl (KeyError ''files''), st)
            | Some fs \<Rightarrow>
                (Inr (), st\<lparr>current_ret := (current_ret st)\<lparr>ret_files := Some (AList.update filename [] fs)\<rparr>\<rparr>))"

definition set_file_field :: "string \<Rightarrow> string \<Rightarrow> pyval \<Rightarrow> unit action" where
  \<comment> \<open>\<open>self.current_ret["files"][filename][key] = value\<close>\<close>
  "set_file_field filename key v =
     (\<lambda>st. case ret_files (current_ret st) of
              None \<Rightarrow> (Inl (KeyError ''files''), st)
            | Some fs \<Rightarrow>
                (case map_of fs filename of
                   None \<Rightarrow> (Inl (KeyError filename), st)
                 | Some d \<Rightarrow>
                     (Inr (), st\<lparr>current_ret := (current_ret st)
                        \<lparr>ret_files := Some (AList.update filename (AList.update key v d) fs)\<rparr>\<rparr>)))"

section \<open>Class \<open>Ls\<close> (\<open>moler/cmd/unix/ls.py\<close>)\<close>

definition Ls_init :: ls_state where
  \<comment> \<open>\<open>__init__\<close>: \<open>self.current_ret["files"] = dict()\<close> on a fresh command\<close>
  "Ls_init =
     \<lparr>current_ret = \<lparr>ret_total = None, ret_files = Some []\<rparr>,
      regex_helper = RegexHelper_init,
      obs_state = Pending\<rparr>"

fun add_names :: "string list \<Rightarrow> unit action" where
  \<comment> \<open>the \<open>for filename in files\<close> loop of \<open>_parse_files_list\<close>\<close>
  "add_names [] = returns ()"
| "add_names (filename # files) =
     and_then (new_file filename) (\<lambda>_.
     and_then (set_file_field filename ''name'' (PyStr filename)) (\<lambda>_.
     add_names files))"

definition Ls_parse_files_list :: "string \<Rightarrow> unit action" where
  "Ls_parse_files_list line =
     and_then (helper_search_compiled re_files_list line) (\<lambda>m.
       if truthy m then
         and_then (add_names (py_split line)) (\<lambda>_. raise ParsingDone)
       else returns ())"

definition Ls_add_new_file_long :: "bool \<Rightarrow> unit action" where
  "Ls_add_new_file_long islink =
     and_then (helper_group 7) (\<lambda>filename.
     and_then (new_file filename) (\<lambda>_.
     and_then (helper_group 1) (\<lambda>g1.
     and_then (set_file_field filename ''permissions'' (PyStr g1)) (\<lambda>_.
     and_then (helper_group 2) (\<lambda>g2.
     and_then (lift (py_int g2)) (\<lambda>n.
     and_then (set_file_field filename ''hard_links_count'' (PyInt n)) (\<lambda>_.
     and_then (helper_group 3) (\<lambda>g3.
     and_then (set_file_field filename ''owner'' (PyStr g3)) (\<lambda>_.
     and_then (helper_group 4) (\<lambda>g4.
     and_then (set_file_field filename ''group'' (PyStr g4)) (\<lambda>_.
     and_then (helper_group 5) (\<lambda>g5.
     and_then (set_file_field filename ''size_raw'' (PyStr g5)) (\<lambda>_.
     and_then (helper_group 5) (\<lambda>g5.
     and_then (lift (to_bytes g5)) (\<lambda>b.
     and_then (set_file_field filename ''size_bytes'' (PyNum b)) (\<lambda>_.
     and_then (helper_group 6) (\<lambda>g6.
     and_then (set_file_field filename ''date'' (PyStr g6)) (\<lambda>_.
     and_then (helper_group 7) (\<lambda>g7.
     and_then (set_file_field filename ''name'' (PyStr g7)) (\<lambda>_.
     if islink then
       and_then (helper_group 8) (\<lambda>g8.
       set_file_field filename ''link'' (PyStr g8))
     else returns ()))))))))))))))))))))"

definition Ls_parse_long_file :: "string \<Rightarrow> unit action" where
  "Ls_parse_long_file line =
     and_then (helper_search_compiled re_long line) (\<lambda>m.
       if truthy m then
         and_then (Ls_add_new_file_long False) (\<lambda>_. raise ParsingDone)
       else returns ())"

definition Ls_parse_long_links :: "string \<Rightarrow> unit action" where
  "Ls_parse_long_links line =
     and_then (helper_search_compiled re_long_links line) (\<lambda>m.
       if truthy m then
         and_then (Ls_add_new_file_long True) (\<lambda>_. raise ParsingDone)
       else returns ())"

definition ensure_total :: "unit action" where
  \<comment> \<open>\<open>if "total" not in self.current_ret: self.current_ret["total"] = dict()\<close>\<close>
  "ensure_total =
     (\<lambda>st. if ret_total (current_ret st) = None
           then (Inr (), st\<lparr>current_ret := (current_ret st)\<lparr>ret_total := Some []\<rparr>\<rparr>)
           else (Inr (), st))"

definition Ls_parse_total :: "string \<Rightarrow> unit action" where
  "Ls_parse_total line =
     and_then (helper_search_compiled re_total line) (\<lambda>m.
       if truthy m then
         and_then ensure_total (\<lambda>_.
         and_then (helper_group 1) (\<lambda>g.
         and_then (set_total_field ''raw'' (PyStr g)) (\<lambda>_.
         and_then (helper_group 1) (\<lambda>g.
         and_then (lift (to_bytes g)) (\<lambda>b.
         and_then (set_total_field ''bytes'' (PyNum b)) (\<lambda>_.
         raise ParsingDone))))))
       else returns ())"

definition parse_chain :: "string \<Rightarrow> unit action" where
  \<comment> \<open>the body of the \<open>try\<close> in \<open>on_new_line\<close>\<close>
  "parse_chain line =
     and_then (Ls_parse_total line) (\<lambda>_.
     and_then (Ls_parse_long_links line) (\<lambda>_.
     and_then (Ls_parse_long_file line) (\<lambda>_.
     Ls_parse_files_list line)))"

definition except_ParsingDone :: "unit action \<Rightarrow> unit action" where
  \<comment> \<open>\<open>try: ... except ParsingDone: pass\<close>\<close>
  "except_ParsingDone a =
     (\<lambda>st. case a st of
              (Inl e, st') \<Rightarrow> if e = ParsingDone then (Inr (), st') else (Inl e, st')
            | (Inr x, st') \<Rightarrow> (Inr x, st'))"

definition Ls_on_new_line :: "(string \<Rightarrow> bool \<Rightarrow> unit action) \<Rightarrow> string \<Rightarrow> bool \<Rightarrow> unit action" where
  \<comment> \<open>\<open>super_on_new_line\<close> is \<open>super(Ls, self).on_new_line\<close>, the handler of the parent class\<close>
  "Ls_on_new_line super_on_new_line line is_full_line =
     and_then (if is_full_line then except_ParsingDone (parse_chain line) else returns ()) (\<lambda>_.
     super_on_new_line line is_full_line)"

definition lower_char :: "char \<Rightarrow> char" where
  "lower_char c =
     (case map_of (zip ''ABCDEFGHIJKLMNOPQRSTUVWXYZ'' ''abcdefghijklmnopqrstuvwxyz'') c of
        Some l \<Rightarrow> l
      | None \<Rightarrow> c)"

definition lower :: "string \<Rightarrow> string" where
  \<comment> \<open>\<open>requested_type.lower()\<close>\<close>
  "lower s = map lower_char s"

definition first_char :: "pyval \<Rightarrow> exn + string" where
  \<comment> \<open>\<open>permissions[0]\<close>\<close>
  "first_char v =
     (case v of
        PyStr [] \<Rightarrow> Inl IndexError
      | PyStr (c # _) \<Rightarrow> Inr [c]
      | _ \<Rightarrow> Inl TypeError)"

fun get_types_loop ::
  "string \<Rightarrow> (string \<times> pydict) list \<Rightarrow> string list \<Rightarrow> (string \<times> pydict) list
     \<Rightarrow> exn + (string \<times> pydict) list" where
  \<comment> \<open>the \<open>for file_name in result["files"]\<close> loop of \<open>_get_types\<close>: the requested type,
      \<open>result["files"]\<close>, the keys still to visit and \<open>ret\<close>\<close>
  "get_types_loop requested_type fs [] ret = Inr ret"
| "get_types_loop requested_type fs (file_name # names) ret =
     (case map_of fs file_name of
        None \<Rightarrow> Inl (KeyError file_name)
      | Some file_dict \<Rightarrow>
          (case map_of file_dict ''permissions'' of
             None \<Rightarrow> Inl (KeyError ''permissions'')
           | Some permissions \<Rightarrow>
               (case first_char permissions of
                  Inl e \<Rightarrow> Inl e
                | Inr current_type \<Rightarrow>
                    get_types_loop requested_type fs names
                      (if requested_type = current_type
                       then AList.update file_name file_dict ret else ret))))"

definition Ls_get_types :: "string \<Rightarrow> (string \<times> pydict) list action" where
  "Ls_get_types requested_type =
     (\<lambda>st. if \<not> observer_done st then (Inl ResultNotAvailableYet, st)
           else (case result st of
                   Inl e \<Rightarrow> (Inl e, st)
                 | Inr r \<Rightarrow>
                     (case ret_files r of
                        None \<Rightarrow> (Inr [], st)
                      | Some fs \<Rightarrow>
                          (get_types_loop (lower requested_type) fs (map fst fs) [], st))))"

definition Ls_get_dirs :: "(string \<times> pydict) list action" where
  "Ls_get_dirs = Ls_get_types ''d''"

definition Ls_get_links :: "(string \<times> pydict) list action" where
  "Ls_get_links = Ls_get_types ''l''"

definition Ls_get_files :: "(string \<times> pydict) list action" where
  "Ls_get_files = Ls_get_types ''-''"

section \<open>The parent's line handler and the delivery of lines\<close>

text \<open>
  Modelled from the spec: \<open>on_new_line\<close> of the parent class (\<open>GenericUnixCommand\<close>, not
  among the sources). The spec: a base handler that checks for a trailing prompt to mark
  the command Done-Success; terminal states are sticky. The prompt is the pattern the
  command was constructed with.
\<close>

definition GenericUnixCommand_on_new_line :: "regex \<Rightarrow> string \<Rightarrow> bool \<Rightarrow> unit action" where
  "GenericUnixCommand_on_new_line prompt line is_full_line =
     (\<lambda>st. if re_search prompt line \<noteq> None \<and> obs_state st = Pending
           then (Inr (), st\<lparr>obs_state := Done_Success\<rparr>)
           else (Inr (), st))"

text \<open>
  Modelled from the spec: the delivery of \<open>(line, is_full_line)\<close> events to the command.
  The spec: data delivered after a terminal state is a no-op; an error raised while
  parsing is stored as the observer's error and not thrown from the delivery.
\<close>

fun deliver :: "regex \<Rightarrow> (string \<times> bool) list \<Rightarrow> ls_state \<Rightarrow> ls_state" where
  "deliver prompt [] st = st"
| "deliver prompt ((line, is_full_line) # rest) st =
     (if observer_done st then st
      else (case Ls_on_new_line (GenericUnixCommand_on_new_line prompt) line is_full_line st of
              (Inl e, st') \<Rightarrow> st'\<lparr>obs_state := Done_Failure e\<rparr>
            | (Inr _, st') \<Rightarrow> deliver prompt rest st'))"

definition no_match :: "ls_state \<Rightarrow> ls_state" where
  \<comment> \<open>the state after a search that found nothing: \<open>self.match = None\<close> in the helper\<close>
  "no_match st = st\<lparr>regex_helper := AList.update ''match'' NoneObj (regex_helper st)\<rparr>"

section \<open>Values used in the statements\<close>

definition long_entry :: "rmatch \<Rightarrow> int \<Rightarrow> rat \<Rightarrow> pydict" where
  "long_entry m n b =
     [(''permissions'', PyStr (the (map_of m 1))),
      (''hard_links_count'', PyInt n),
      (''owner'', PyStr (the (map_of m 3))),
      (''group'', PyStr (the (map_of m 4))),
      (''size_raw'', PyStr (the (map_of m 5))),
      (''size_bytes'', PyNum b),
      (''date'', PyStr (the (map_of m 6))),
      (''name'', PyStr (the (map_of m 7)))]"

definition name_entries :: "string list \<Rightarrow> (string \<times> pydict) list \<Rightarrow> (string \<times> pydict) list" where
  "name_entries names fs = foldl (\<lambda>fs n. AList.update n [(''name'', PyStr n)] fs) fs names"

definition total_line :: string where "total_line = ''total 8''"

definition bin_line :: string where "bin_line = ''drwxr-xr-x  2 root root 4096 Sep 25 2014 bin''"

definition bcn_line :: string where "bcn_line = ''lrwxrwxrwx  1 root root    4 Mar 20 2015 bcn -> /bcn''"

definition bin_entry :: pydict where
  "bin_entry =
     [(''permissions'', PyStr ''drwxr-xr-x''), (''hard_links_count'', PyInt 2),
      (''owner'', PyStr ''root''), (''group'', PyStr ''root''), (''size_raw'', PyStr ''4096''),
      (''size_bytes'', PyNum 4096), (''date'', PyStr ''Sep 25 2014''), (''name'', PyStr ''bin'')]"

definition bcn_entry :: pydict where
  "bcn_entry =
     [(''permissions'', PyStr ''lrwxrwxrwx''), (''hard_links_count'', PyInt 1),
      (''owner'', PyStr ''root''), (''group'', PyStr ''root''), (''size_raw'', PyStr ''4''),
      (''size_bytes'', PyNum 4), (''date'', PyStr ''Mar 20 2015''), (''name'', PyStr ''bcn''),
      (''link'', PyStr ''/bcn'')]"

definition listed :: ls_state where
  "listed =
     \<lparr>current_ret =
        \<lparr>ret_total = Some [(''raw'', PyStr ''8''), (''bytes'', PyNum 8)],
         ret_files = Some [(''bin'', bin_entry), (''bcn'', bcn_entry)]\<rparr>,
      regex_helper = [(''match'', MatchObj
         [(1, ''lrwxrwxrwx''), (2, ''1''), (3, ''root''), (4, ''root''),
          (5, ''4''), (6, ''Mar 20 2015''), (7, ''bcn''), (8, ''/bcn'')])],
      obs_state = Pending\<rparr>"

definition plain_line :: string where
  "plain_line = ''.ansible               dot1ag-13.2.tgz                       .kde4''"

definition prompt_line :: string where
  "prompt_line = ''host:~ #''"

definition after_total :: ls_state where
  "after_total = \<lparr>current_ret = \<lparr>ret_total = Some [(''raw'', PyStr ''8''), (''bytes'', PyNum 8)], ret_files = Some []\<rparr>,
       regex_helper = [(''match'', MatchObj [(1, ''8'')])], obs_state = Pending\<rparr>"

definition after_bin :: ls_state where
  "after_bin = \<lparr>current_ret = \<lparr>ret_total = Some [(''raw'', PyStr ''8''), (''bytes'', PyNum 8)],
        ret_files = Some [(''bin'', bin_entry)]\<rparr>,
       regex_helper = [(''match'', MatchObj [(1, ''drwxr-xr-x''), (2, ''2''), (3, ''root''), (4, ''root''),
   (5, ''4096''), (6, ''Sep 25 2014''), (7, ''bin'')])], obs_state = Pending\<rparr>"

definition entry_type :: "pydict \<Rightarrow> string option" where
  "entry_type d =
     (case map_of d ''permissions'' of
        Some (PyStr (c # _)) \<Rightarrow> Some [c]
      | _ \<Rightarrow> None)"

definition plain_listed :: ls_state where
  "plain_listed =
     \<lparr>current_ret =
        \<lparr>ret_total = None,
         ret_files = Some [(''.ansible'', [(''name'', PyStr ''.ansible'')]),
                           (''dot1ag-13.2.tgz'', [(''name'', PyStr ''dot1ag-13.2.tgz'')]),
                           (''.kde4'', [(''name'', PyStr ''.kde4'')])]\<rparr>,
      regex_helper = [(''match'', MatchObj [])],
      obs_state = Done_Success\<rparr>"

definition human_total_line :: string where
  "human_total_line = ''total 1T''"

definition human_file2_line :: string where
  "human_file2_line = ''-rwxr-xr-x 2 root  root  4.5M Nov 10  2016 file2''"

definition human_file5_line :: string where
  "human_file5_line = ''-rwxr-xr-x 2 root  root    92 Nov 10  2016 file5''"

definition match_is_data :: "regex_helper \<Rightarrow> bool" where
  "match_is_data h =
     (case map_of h ''match'' of
        Some NoneObj \<Rightarrow> True
      | Some (MatchObj _) \<Rightarrow> True
      | _ \<Rightarrow> False)"

definition only_match :: "regex_helper \<Rightarrow> bool" where
  "only_match h = (match_is_data h \<and> (\<forall>name. name \<noteq> ''match'' \<longrightarrow> map_of h name = None))"

section \<open>\<open>ThreadPoolExecutorRunner\<close> (\<open>moler/runner.py\<close>)\<close>

text \<open>
  Time is a rational number of seconds, read from one clock, and it advances only while
  \<open>wait_for\<close> blocks in \<open>wait([future], timeout=wait_tick)\<close>. What other threads do is
  given as a function of time: when the background future completes, and which value the
  observer's \<open>timeout\<close> field holds when it is read. Calls on the collaborators whose code
  is not in \<open>runner.py\<close> (the connection, the observer, the future, the executor) are
  recorded in call order in a log and return normally; logging is left out.
\<close>

datatype event =
    Subscribe nat           \<comment> \<open>\<open>moler_conn.subscribe(connection_observer.data_received)\<close>\<close>
  | Unsubscribe nat         \<comment> \<open>\<open>moler_conn.unsubscribe(connection_observer.data_received)\<close>\<close>
  | Observer_cancel nat     \<comment> \<open>\<open>connection_observer.cancel()\<close>\<close>
  | Future_cancel           \<comment> \<open>\<open>connection_observer_future.cancel()\<close>\<close>
  | Executor_shutdown       \<comment> \<open>\<open>self.executor.shutdown()\<close>\<close>
  | On_timeout nat          \<comment> \<open>\<open>connection_observer.on_timeout()\<close>\<close>

record world =
  in_shutdown :: bool         \<comment> \<open>\<open>self._in_shutdown\<close>\<close>
  i_own_executor :: bool      \<comment> \<open>\<open>self._i_own_executor\<close>\<close>
  clock :: rat                \<comment> \<open>what \<open>time.time()\<close> returns\<close>
  call_log :: "event list"

record observer =
  obs_id :: nat
  obs_timeout :: "rat \<Rightarrow> rat"       \<comment> \<open>\<open>connection_observer.timeout\<close>, as read at a time\<close>
  has_command_string :: bool        \<comment> \<open>\<open>hasattr(connection_observer, "command_string")\<close>\<close>

record ('e, 'r) future =
  done_at :: "rat option"           \<comment> \<open>when the background feed returns, if ever\<close>
  outcome :: "'e + 'r"              \<comment> \<open>what \<open>future.result()\<close> raises or returns\<close>

datatype 'e failure =
    CommandTimeout nat "rat option" rat
      \<comment> \<open>\<open>CommandTimeout(connection_observer, timeout, kind="await_done", passed_time=passed)\<close>\<close>
  | ConnectionObserverTimeout nat "rat option" rat
      \<comment> \<open>\<open>ConnectionObserverTimeout(connection_observer, timeout, kind="await_done",
          passed_time=passed)\<close>\<close>
  | Raised_by_future 'e
      \<comment> \<open>an exception of \<open>connection_observer_future.result()\<close>\<close>
  | TypeError_None
      \<comment> \<open>\<open>None - float\<close>\<close>

definition shutdown :: "world \<Rightarrow> world" where
  "shutdown w =
     (let w1 = w\<lparr>in_shutdown := True\<rparr>
      in if i_own_executor w1 then w1\<lparr>call_log := call_log w1 @ [Executor_shutdown]\<rparr> else w1)"

definition wait :: "('e, 'r) future \<Rightarrow> rat \<Rightarrow> world \<Rightarrow> bool \<times> world" where
  \<comment> \<open>\<open>wait([connection_observer_future], timeout=wait_tick)\<close>: block until the future is done
      or the tick is over; the flag is \<open>connection_observer_future in done\<close>\<close>
  "wait fut tick w =
     (case done_at fut of
        None \<Rightarrow> (False, w\<lparr>clock := clock w + tick\<rparr>)
      | Some c \<Rightarrow>
          if c \<le> clock w + tick then (True, w\<lparr>clock := max (clock w) c\<rparr>)
          else (False, w\<lparr>clock := clock w + tick\<rparr>))"

datatype loop_exit =
    Completed                  \<comment> \<open>the future was seen done\<close>
  | Expired "rat option"       \<comment> \<open>\<open>remain_time > 0.0\<close> failed; the value of \<open>timeout\<close> then\<close>
  | Subtract_None              \<comment> \<open>\<open>timeout - (...)\<close> with \<open>timeout = None\<close>\<close>

partial_function (option) wait_loop ::
  "observer \<Rightarrow> ('e, 'r) future \<Rightarrow> rat \<Rightarrow> bool \<Rightarrow> rat \<Rightarrow> rat option \<Rightarrow> rat \<Rightarrow> world
     \<Rightarrow> (loop_exit \<times> world) option" where
  \<comment> \<open>the \<open>while remain_time > 0.0\<close> loop: \<open>start_time\<close>, \<open>check_timeout_from_observer\<close>,
      \<open>wait_tick\<close>, \<open>timeout\<close>, \<open>remain_time\<close>; \<open>None\<close> is a loop that never ends\<close>
  "wait_loop obs fut start_time check_timeout_from_observer wait_tick timeout remain_time w =
     (if remain_time > 0 then
        (case wait fut wait_tick w of
           (future_in_done, w1) \<Rightarrow>
             if future_in_done then Some (Completed, w1)
             else (case (if check_timeout_from_observer then Some (obs_timeout obs (clock w1))
                         else timeout) of
                     None \<Rightarrow> Some (Subtract_None, w1)
                   | Some t \<Rightarrow>
                       wait_loop obs fut start_time check_timeout_from_observer wait_tick (Some t)
                         (t - (clock w1 - start_time)) w1))
      else Some (Expired timeout, w))"

definition expire :: "observer \<Rightarrow> rat option \<Rightarrow> rat \<Rightarrow> world \<Rightarrow> ('e failure + 'r) \<times> world" where
  \<comment> \<open>the statements of \<open>wait_for\<close> after the loop\<close>
  "expire obs timeout start_time w =
     (let w1 = w\<lparr>call_log := call_log w @ [Unsubscribe (obs_id obs)]\<rparr>;
          passed = clock w1 - start_time;
          w2 = w1\<lparr>call_log := call_log w1 @ [Observer_cancel (obs_id obs)]\<rparr>;
          w3 = w2\<lparr>call_log := call_log w2 @ [Future_cancel]\<rparr>;
          w4 = shutdown w3;
          w5 = w4\<lparr>call_log := call_log w4 @ [On_timeout (obs_id obs)]\<rparr>
      in if has_command_string obs
         then (Inl (CommandTimeout (obs_id obs) timeout passed), w5)
         else (Inl (ConnectionObserverTimeout (obs_id obs) timeout passed), w5))"

definition truthy_timeout :: "rat option \<Rightarrow> bool" where
  \<comment> \<open>\<open>if timeout:\<close> is false for \<open>None\<close> and for zero\<close>
  "truthy_timeout timeout = (case timeout of None \<Rightarrow> False | Some t \<Rightarrow> t \<noteq> 0)"

definition wait_for ::
  "observer \<Rightarrow> ('e, 'r) future \<Rightarrow> rat option \<Rightarrow> world \<Rightarrow> (('e failure + 'r) \<times> world) option" where
  "wait_for obs fut timeout w =
     (let start_time = clock w;
          (remain_time, check_timeout_from_observer, wait_tick) =
            (case timeout of
               Some t \<Rightarrow> if truthy_timeout timeout then (t, False, t)
                         else (obs_timeout obs (clock w), True, 1 / 10)
             | None \<Rightarrow> (obs_timeout obs (clock w), True, 1 / 10))
      in case wait_loop obs fut start_time check_timeout_from_observer wait_tick timeout
                remain_time w of
           None \<Rightarrow> None
         | Some (Completed, w1) \<Rightarrow> Some (map_sum Raised_by_future id (outcome fut), shutdown w1)
         | Some (Expired tmo, w1) \<Rightarrow> Some (expire obs tmo start_time w1)
         | Some (Subtract_None, w1) \<Rightarrow> Some (Inl TypeError_None, w1))"

datatype feed_step = Feed_continue | Feed_break

definition feed_start :: "nat \<Rightarrow> world \<Rightarrow> world" where
  \<comment> \<open>\<open>feed\<close> up to its loop: \<open>moler_conn.subscribe(connection_observer.data_received)\<close>\<close>
  "feed_start oid w = w\<lparr>call_log := call_log w @ [Subscribe oid]\<rparr>"

definition feed_iteration :: "nat \<Rightarrow> bool \<Rightarrow> world \<Rightarrow> feed_step \<times> world" where
  \<comment> \<open>one pass of the \<open>while True\<close> loop of \<open>feed\<close> for the observer with this id;
      the flag is what \<open>connection_observer.done()\<close> returns\<close>
  "feed_iteration oid observer_is_done w =
     (if observer_is_done then (Feed_break, w\<lparr>call_log := call_log w @ [Unsubscribe oid]\<rparr>)
      else if in_shutdown w then (Feed_continue, w\<lparr>call_log := call_log w @ [Observer_cancel oid]\<rparr>)
      else (Feed_continue, w))"

definition timeout_of :: "'e failure \<Rightarrow> bool" where
  "timeout_of e = (case e of CommandTimeout _ _ _ \<Rightarrow> True | ConnectionObserverTimeout _ _ _ \<Rightarrow> True
                   | _ \<Rightarrow> False)"

definition never_done :: "(unit, unit) future" where
  \<comment> \<open>a future whose feed does not return\<close>
  "never_done = \<lparr>done_at = None, outcome = Inr ()\<rparr>"

definition idle_world :: world where
  \<comment> \<open>a runner fresh from \<open>__init__\<close> with its own executor, at time 0\<close>
  "idle_world = \<lparr>in_shutdown = False, i_own_executor = True, clock = 0, call_log = []\<rparr>"

definition command_observer :: "(rat \<Rightarrow> rat) \<Rightarrow> observer" where
  \<comment> \<open>a command (it has \<open>command_string\<close>) whose \<open>timeout\<close> field reads as given\<close>
  "command_observer f = \<lparr>obs_id = 1, obs_timeout = f, has_command_string = True\<rparr>"

definition plain_observer :: "(rat \<Rightarrow> rat) \<Rightarrow> observer" where
  "plain_observer f = \<lparr>obs_id = 2, obs_timeout = f, has_command_string = False\<rparr>"

definition done_future :: "rat \<Rightarrow> (unit, nat) future" where
  \<comment> \<open>a future whose feed returns 7 at the given time\<close>
  "done_future c = \<lparr>done_at = Some c, outcome = Inr 7\<rparr>"

section \<open>Properties of the parse handlers\<close>

declare re_search.simps [simp del] re_match.simps [simp del]


lemma and_then_Inl: "fst (a st) = Inl e \<Longrightarrow> and_then a f st = (Inl e, snd (a st))"
  by (cases "a st") (simp add: and_then_def)

lemma and_then_Inr: "a st = (Inr x, st') \<Longrightarrow> and_then a f st = f x st'"
  by (simp add: and_then_def)

lemma and_then_raises:
  assumes "\<And>x s. isl (fst (f x s))"
  shows "isl (fst (and_then a f st))"
proof (cases "a st")
  case (Pair r s)
  then show ?thesis using assms by (cases r) (simp_all add: and_then_def)
qed

lemma raise_raises: "isl (fst (raise e st))"
  by (simp add: raise_def)

lemma search_miss:
  "re_search r line = None \<Longrightarrow> helper_search_compiled r line st = (Inr NoneObj, no_match st)"
  by (simp add: helper_search_compiled_def RegexHelper_search_compiled_def of_match_def no_match_def)

lemma search_hit:
  "re_search r line = Some m \<Longrightarrow>
   helper_search_compiled r line st =
     (Inr (MatchObj m), st\<lparr>regex_helper := AList.update ''match'' (MatchObj m) (regex_helper st)\<rparr>)"
  by (simp add: helper_search_compiled_def RegexHelper_search_compiled_def of_match_def Let_def)

lemma parse_total_miss:
  "re_search re_total line = None \<Longrightarrow> Ls_parse_total line st = (Inr (), no_match st)"
  by (simp add: Ls_parse_total_def and_then_def search_miss truthy_def returns_def)

lemma parse_long_links_miss:
  "re_search re_long_links line = None \<Longrightarrow> Ls_parse_long_links line st = (Inr (), no_match st)"
  by (simp add: Ls_parse_long_links_def and_then_def search_miss truthy_def returns_def)

lemma parse_long_file_miss:
  "re_search re_long line = None \<Longrightarrow> Ls_parse_long_file line st = (Inr (), no_match st)"
  by (simp add: Ls_parse_long_file_def and_then_def search_miss truthy_def returns_def)

lemma parse_files_list_miss:
  "re_search re_files_list line = None \<Longrightarrow> Ls_parse_files_list line st = (Inr (), no_match st)"
  by (simp add: Ls_parse_files_list_def and_then_def search_miss truthy_def returns_def)

lemma parse_total_hit:
  assumes "re_search re_total line \<noteq> None"
  shows "isl (fst (Ls_parse_total line st))"
proof -
  from assms obtain m where m: "re_search re_total line = Some m" by auto
  show ?thesis
    unfolding Ls_parse_total_def
    by (simp add: and_then_Inr [OF search_hit [OF m]] truthy_def)
       (intro and_then_raises raise_raises)
qed

lemma parse_long_links_hit:
  assumes "re_search re_long_links line \<noteq> None"
  shows "isl (fst (Ls_parse_long_links line st))"
proof -
  from assms obtain m where m: "re_search re_long_links line = Some m" by auto
  show ?thesis
    unfolding Ls_parse_long_links_def
    by (simp add: and_then_Inr [OF search_hit [OF m]] truthy_def)
       (intro and_then_raises raise_raises)
qed

lemma parse_long_file_hit:
  assumes "re_search re_long line \<noteq> None"
  shows "isl (fst (Ls_parse_long_file line st))"
proof -
  from assms obtain m where m: "re_search re_long line = Some m" by auto
  show ?thesis
    unfolding Ls_parse_long_file_def
    by (simp add: and_then_Inr [OF search_hit [OF m]] truthy_def)
       (intro and_then_raises raise_raises)
qed

lemma parse_files_list_hit:
  assumes "re_search re_files_list line \<noteq> None"
  shows "isl (fst (Ls_parse_files_list line st))"
proof -
  from assms obtain m where m: "re_search re_files_list line = Some m" by auto
  show ?thesis
    unfolding Ls_parse_files_list_def
    by (simp add: and_then_Inr [OF search_hit [OF m]] truthy_def)
       (intro and_then_raises raise_raises)
qed

lemma and_then_isl: "isl (fst (a st)) \<Longrightarrow> and_then a f st = (Inl (projl (fst (a st))), snd (a st))"
  by (cases "a st"; cases "fst (a st)") (simp_all add: and_then_def)

lemma and_then_unit_isl:
  fixes a :: "unit action"
  shows "isl (fst (a st)) \<Longrightarrow> and_then a f st = (Inl (projl (fst (a st))), snd (a st))"
  by (rule and_then_isl)

lemma chain_total:
  "re_search re_total line \<noteq> None \<Longrightarrow> parse_chain line st = Ls_parse_total line st"
  using parse_total_hit [of line st]
  by (cases "Ls_parse_total line st"; cases "fst (Ls_parse_total line st)")
     (simp_all add: parse_chain_def and_then_def)

lemma chain_long_links:
  "re_search re_total line = None \<Longrightarrow> re_search re_long_links line \<noteq> None \<Longrightarrow>
   parse_chain line st = Ls_parse_long_links line (no_match st)"
  using parse_long_links_hit [of line "no_match st"]
  by (cases "Ls_parse_long_links line (no_match st)"; cases "fst (Ls_parse_long_links line (no_match st))")
     (simp_all add: parse_chain_def and_then_def parse_total_miss)

lemma chain_long_file:
  "re_search re_total line = None \<Longrightarrow> re_search re_long_links line = None \<Longrightarrow>
   re_search re_long line \<noteq> None \<Longrightarrow>
   parse_chain line st = Ls_parse_long_file line (no_match (no_match st))"
  using parse_long_file_hit [of line "no_match (no_match st)"]
  by (cases "Ls_parse_long_file line (no_match (no_match st))"; cases "fst (Ls_parse_long_file line (no_match (no_match st)))")
     (simp_all add: parse_chain_def and_then_def parse_total_miss parse_long_links_miss)

lemma chain_files_list:
  "re_search re_total line = None \<Longrightarrow> re_search re_long_links line = None \<Longrightarrow>
   re_search re_long line = None \<Longrightarrow>
   parse_chain line st = Ls_parse_files_list line (no_match (no_match (no_match st)))"
  by (simp add: parse_chain_def and_then_def parse_total_miss parse_long_links_miss parse_long_file_miss)

lemma no_match_idem: "no_match (no_match st) = no_match st"
  by (simp add: no_match_def)

lemma on_new_line_partial:
  "Ls_on_new_line base line False st = base line False st"
  by (simp add: Ls_on_new_line_def and_then_def returns_def)

lemma on_new_line_full:
  "Ls_on_new_line base line True st =
     (case parse_chain line st of
        (Inl e, st') \<Rightarrow> if e = ParsingDone then base line True st' else (Inl e, st')
      | (Inr _, st') \<Rightarrow> base line True st')"
  by (simp add: Ls_on_new_line_def and_then_def except_ParsingDone_def split: prod.splits sum.splits)



lemmas action_defs = and_then_def returns_def raise_def lift_def helper_group_def
  set_total_field_def new_file_def set_file_field_def ensure_total_def
  RegexHelper_group_def getattr_def

lemma add_new_file_long_value:
  assumes h: "map_of (regex_helper st) ''match'' = Some (MatchObj m)"
    and g: "map_of m 1 = Some g1" "map_of m 2 = Some g2" "map_of m 3 = Some g3"
      "map_of m 4 = Some g4" "map_of m 5 = Some g5" "map_of m 6 = Some g6" "map_of m 7 = Some g7"
    and n: "py_int g2 = Inr n" and b: "to_bytes g5 = Inr b"
    and fs: "ret_files (current_ret st) = Some fs"
    and l: "islink \<longrightarrow> map_of m 8 = Some g8"
  shows "Ls_add_new_file_long islink st =
     (Inr (), st\<lparr>current_ret := (current_ret st)\<lparr>ret_files :=
        Some (AList.update g7 (long_entry m n b @ (if islink then [(''link'', PyStr g8)] else [])) fs)\<rparr>\<rparr>)"
  using assms
  by (simp add: Ls_add_new_file_long_def action_defs long_entry_def update_conv')

lemma parse_total_value:
  assumes m: "re_search re_total line = Some m" and g: "map_of m 1 = Some g"
    and b: "to_bytes g = Inr b"
  shows "Ls_parse_total line st =
     (Inl ParsingDone,
      st\<lparr>regex_helper := AList.update ''match'' (MatchObj m) (regex_helper st),
         current_ret := (current_ret st)\<lparr>ret_total :=
           Some (AList.update ''bytes'' (PyNum b) (AList.update ''raw'' (PyStr g)
             (case ret_total (current_ret st) of None \<Rightarrow> [] | Some d \<Rightarrow> d)))\<rparr>\<rparr>)"
  using g b
  by (simp add: Ls_parse_total_def search_hit [OF m] truthy_def action_defs
        update_conv' split: option.splits)

lemma parse_long_file_value:
  assumes m: "re_search re_long line = Some m"
    and g: "map_of m 1 = Some g1" "map_of m 2 = Some g2" "map_of m 3 = Some g3"
      "map_of m 4 = Some g4" "map_of m 5 = Some g5" "map_of m 6 = Some g6" "map_of m 7 = Some g7"
    and n: "py_int g2 = Inr n" and b: "to_bytes g5 = Inr b"
    and fs: "ret_files (current_ret st) = Some fs"
  shows "Ls_parse_long_file line st =
     (Inl ParsingDone,
      st\<lparr>regex_helper := AList.update ''match'' (MatchObj m) (regex_helper st),
         current_ret := (current_ret st)\<lparr>ret_files :=
           Some (AList.update g7 (long_entry m n b) fs)\<rparr>\<rparr>)"
proof -
  let ?st = "st\<lparr>regex_helper := AList.update ''match'' (MatchObj m) (regex_helper st)\<rparr>"
  have "Ls_add_new_file_long False ?st =
     (Inr (), ?st\<lparr>current_ret := (current_ret ?st)\<lparr>ret_files :=
        Some (AList.update g7 (long_entry m n b @ (if False then [(''link'', PyStr g7)] else [])) fs)\<rparr>\<rparr>)"
    by (rule add_new_file_long_value [where ?g1.0 = g1 and ?g3.0 = g3 and ?g4.0 = g4 and ?g6.0 = g6])
       (use g n b fs in \<open>simp_all add: update_conv'\<close>)
  then show ?thesis
    by (simp add: Ls_parse_long_file_def search_hit [OF m] truthy_def and_then_def raise_def)
qed

lemma parse_long_links_value:
  assumes m: "re_search re_long_links line = Some m"
    and g: "map_of m 1 = Some g1" "map_of m 2 = Some g2" "map_of m 3 = Some g3"
      "map_of m 4 = Some g4" "map_of m 5 = Some g5" "map_of m 6 = Some g6" "map_of m 7 = Some g7"
      "map_of m 8 = Some g8"
    and n: "py_int g2 = Inr n" and b: "to_bytes g5 = Inr b"
    and fs: "ret_files (current_ret st) = Some fs"
  shows "Ls_parse_long_links line st =
     (Inl ParsingDone,
      st\<lparr>regex_helper := AList.update ''match'' (MatchObj m) (regex_helper st),
         current_ret := (current_ret st)\<lparr>ret_files :=
           Some (AList.update g7 (long_entry m n b @ [(''link'', PyStr g8)]) fs)\<rparr>\<rparr>)"
proof -
  let ?st = "st\<lparr>regex_helper := AList.update ''match'' (MatchObj m) (regex_helper st)\<rparr>"
  have "Ls_add_new_file_long True ?st =
     (Inr (), ?st\<lparr>current_ret := (current_ret ?st)\<lparr>ret_files :=
        Some (AList.update g7 (long_entry m n b @ (if True then [(''link'', PyStr g8)] else [])) fs)\<rparr>\<rparr>)"
    by (rule add_new_file_long_value [where ?g1.0 = g1 and ?g3.0 = g3 and ?g4.0 = g4 and ?g6.0 = g6])
       (use g n b fs in \<open>simp_all add: update_conv'\<close>)
  then show ?thesis
    by (simp add: Ls_parse_long_links_def search_hit [OF m] truthy_def and_then_def raise_def)
qed

lemma add_names_value:
  "ret_files (current_ret st) = Some fs \<Longrightarrow>
   add_names names st =
     (Inr (), st\<lparr>current_ret := (current_ret st)\<lparr>ret_files := Some (name_entries names fs)\<rparr>\<rparr>)"
proof (induction names arbitrary: st fs)
  case Nil
  then show ?case by (simp add: returns_def name_entries_def)
next
  case (Cons n names)
  let ?st = "st\<lparr>current_ret := (current_ret st)\<lparr>ret_files := Some (AList.update n [(''name'', PyStr n)] fs)\<rparr>\<rparr>"
  have "ret_files (current_ret ?st) = Some (AList.update n [(''name'', PyStr n)] fs)" by simp
  from Cons.IH [OF this] Cons.prems show ?case
    by (simp add: and_then_def new_file_def set_file_field_def update_conv' name_entries_def)
qed

lemma parse_files_list_value:
  assumes m: "re_search re_files_list line = Some m"
    and fs: "ret_files (current_ret st) = Some fs"
  shows "Ls_parse_files_list line st =
     (Inl ParsingDone,
      st\<lparr>regex_helper := AList.update ''match'' (MatchObj m) (regex_helper st),
         current_ret := (current_ret st)\<lparr>ret_files := Some (name_entries (py_split line) fs)\<rparr>\<rparr>)"
proof -
  let ?st = "st\<lparr>regex_helper := AList.update ''match'' (MatchObj m) (regex_helper st)\<rparr>"
  have "ret_files (current_ret ?st) = Some fs" using fs by simp
  from add_names_value [OF this] show ?thesis
    by (simp add: Ls_parse_files_list_def search_hit [OF m] truthy_def and_then_def raise_def)
qed

lemma search_total_line: "re_search re_total total_line = Some [(1, ''8'')]"
  unfolding total_line_def by code_simp
lemma search_bin_total: "re_search re_total bin_line = None"
  unfolding bin_line_def by code_simp
lemma search_bin_links: "re_search re_long_links bin_line = None"
  unfolding bin_line_def by code_simp
lemma search_bin_long: "re_search re_long bin_line = Some
  [(1, ''drwxr-xr-x''), (2, ''2''), (3, ''root''), (4, ''root''),
   (5, ''4096''), (6, ''Sep 25 2014''), (7, ''bin'')]"
  unfolding bin_line_def by code_simp
lemma search_bcn_total: "re_search re_total bcn_line = None"
  unfolding bcn_line_def by code_simp
lemma search_bcn_links: "re_search re_long_links bcn_line = Some
  [(1, ''lrwxrwxrwx''), (2, ''1''), (3, ''root''), (4, ''root''),
   (5, ''4''), (6, ''Mar 20 2015''), (7, ''bcn''), (8, ''/bcn'')]"
  unfolding bcn_line_def by code_simp
lemmas size_defs = to_bytes_def is_digit_def unit_index_def digits_value_def digit_value_def py_int_def
lemma to_bytes_8: "to_bytes ''8'' = Inr 8"
  by (simp add: size_defs)
lemma to_bytes_4096: "to_bytes ''4096'' = Inr 4096"
  by (simp add: size_defs)
lemma to_bytes_4: "to_bytes ''4'' = Inr 4"
  by (simp add: size_defs)
lemma py_int_2: "py_int ''2'' = Inr 2"
  by (simp add: size_defs)
lemma py_int_1: "py_int ''1'' = Inr 1"
  by (simp add: size_defs)

lemma base_no_prompt:
  "re_search p line = None \<Longrightarrow> GenericUnixCommand_on_new_line p line full st = (Inr (), st)"
  by (simp add: GenericUnixCommand_on_new_line_def)

lemma base_prompt:
  "re_search p line \<noteq> None \<Longrightarrow> obs_state st = Pending \<Longrightarrow>
   GenericUnixCommand_on_new_line p line full st = (Inr (), st\<lparr>obs_state := Done_Success\<rparr>)"
  by (simp add: GenericUnixCommand_on_new_line_def)

lemma step_total:
  assumes "re_search p total_line = None"
  shows "Ls_on_new_line (GenericUnixCommand_on_new_line p) total_line True Ls_init =
    (Inr (), \<lparr>current_ret = \<lparr>ret_total = Some [(''raw'', PyStr ''8''), (''bytes'', PyNum 8)], ret_files = Some []\<rparr>,
       regex_helper = [(''match'', MatchObj [(1, ''8'')])], obs_state = Pending\<rparr>)"
proof -
  have "parse_chain total_line Ls_init = Ls_parse_total total_line Ls_init"
    by (rule chain_total) (simp add: search_total_line)
  also have "\<dots> = (Inl ParsingDone, \<lparr>current_ret = \<lparr>ret_total = Some [(''raw'', PyStr ''8''), (''bytes'', PyNum 8)], ret_files = Some []\<rparr>,
       regex_helper = [(''match'', MatchObj [(1, ''8'')])], obs_state = Pending\<rparr>)"
    by (simp add: parse_total_value [OF search_total_line, where g = "''8''" and b = 8] to_bytes_8
          Ls_init_def RegexHelper_init_def)
  finally show ?thesis
    by (simp add: on_new_line_full base_no_prompt [OF assms])
qed

lemma step_total':
  assumes "re_search p total_line = None"
  shows "Ls_on_new_line (GenericUnixCommand_on_new_line p) total_line True Ls_init = (Inr (), after_total)"
  using step_total [OF assms] by (simp add: after_total_def)

lemma step_bin:
  assumes "re_search p bin_line = None"
  shows "Ls_on_new_line (GenericUnixCommand_on_new_line p) bin_line True after_total = (Inr (), after_bin)"
proof -
  have "parse_chain bin_line after_total = Ls_parse_long_file bin_line (no_match (no_match after_total))"
    by (rule chain_long_file) (simp_all add: search_bin_total search_bin_links search_bin_long)
  also have "\<dots> = (Inl ParsingDone, after_bin)"
    by (subst parse_long_file_value [OF search_bin_long, where ?g1.0 = "''drwxr-xr-x''"
          and ?g2.0 = "''2''" and ?g3.0 = "''root''" and ?g4.0 = "''root''" and ?g5.0 = "''4096''"
          and ?g6.0 = "''Sep 25 2014''" and ?g7.0 = "''bin''" and n = 2 and b = 4096
          and fs = "[]"])
       (simp_all add: py_int_2 to_bytes_4096 after_total_def after_bin_def no_match_def
          long_entry_def bin_entry_def)
  finally show ?thesis
    by (simp add: on_new_line_full base_no_prompt [OF assms])
qed

lemma step_bcn:
  assumes "re_search p bcn_line = None"
  shows "Ls_on_new_line (GenericUnixCommand_on_new_line p) bcn_line True after_bin = (Inr (), listed)"
proof -
  have "parse_chain bcn_line after_bin = Ls_parse_long_links bcn_line (no_match after_bin)"
    by (rule chain_long_links) (simp_all add: search_bcn_total search_bcn_links)
  also have "\<dots> = (Inl ParsingDone, listed)"
    by (subst parse_long_links_value [OF search_bcn_links, where ?g1.0 = "''lrwxrwxrwx''"
          and ?g2.0 = "''1''" and ?g3.0 = "''root''" and ?g4.0 = "''root''" and ?g5.0 = "''4''"
          and ?g6.0 = "''Mar 20 2015''" and ?g7.0 = "''bcn''" and ?g8.0 = "''/bcn''" and n = 1 and b = 4
          and fs = "[(''bin'', bin_entry)]"])
       (simp_all add: py_int_1 to_bytes_4 after_bin_def listed_def no_match_def
          long_entry_def bcn_entry_def)
  finally show ?thesis
    by (simp add: on_new_line_full base_no_prompt [OF assms])
qed

lemma step_prompt:
  assumes "re_search p pl \<noteq> None"
  shows "Ls_on_new_line (GenericUnixCommand_on_new_line p) pl False listed =
    (Inr (), listed\<lparr>obs_state := Done_Success\<rparr>)"
  by (simp add: on_new_line_partial base_prompt [OF assms] listed_def)

lemma deliver_listing:
  assumes "re_search p total_line = None" "re_search p bin_line = None"
    "re_search p bcn_line = None" "re_search p pl \<noteq> None"
  shows "deliver p [(total_line, True), (bin_line, True), (bcn_line, True), (pl, False)] Ls_init =
    listed\<lparr>obs_state := Done_Success\<rparr>"
proof -
  have pend: "\<not> observer_done Ls_init" "\<not> observer_done after_total" "\<not> observer_done after_bin"
    "\<not> observer_done listed" "observer_done (listed\<lparr>obs_state := Done_Success\<rparr>)"
    by (simp_all add: observer_done_def Ls_init_def after_total_def after_bin_def listed_def)
  show ?thesis
    by (simp add: pend step_total' [OF assms(1)] step_bin [OF assms(2)] step_bcn [OF assms(3)]
          step_prompt [OF assms(4)])
qed

lemma lower_d: "lower ''d'' = ''d''"
  by (simp add: lower_def lower_char_def)
lemma lower_l: "lower ''l'' = ''l''"
  by (simp add: lower_def lower_char_def)







lemma loop_fails:
  assumes "name \<in> set names" and "map_of fs name = Some d" and "map_of d ''permissions'' = None"
  shows "isl (get_types_loop rt fs names acc)"
  using assms(1)
proof (induction names arbitrary: acc)
  case Nil
  then show ?case by simp
next
  case (Cons n names)
  show ?case
  proof (cases "n = name")
    case True
    then show ?thesis using assms(2,3) by simp
  next
    case False
    with Cons.prems have "name \<in> set names" by simp
    from Cons.IH [OF this] show ?thesis
      by (simp split: option.splits sum.splits)
  qed
qed

lemma loop_fails_KeyError:
  assumes "name \<in> set names" and "map_of fs name = Some d" and "map_of d ''permissions'' = None"
    and "\<forall>n\<in>set names. \<forall>e. map_of fs n = Some e \<longrightarrow> map_of e ''permissions'' = None \<or> entry_type e \<noteq> None"
    and "set names \<subseteq> fst ` set fs"
  shows "get_types_loop rt fs names acc = Inl (KeyError ''permissions'')"
  using assms(1,4,5)
proof (induction names arbitrary: acc)
  case Nil
  then show ?case by simp
next
  case (Cons n names)
  from Cons.prems(3) obtain e where e: "map_of fs n = Some e"
    by (cases "map_of fs n") (auto simp: map_of_eq_None_iff)
  show ?case
  proof (cases "map_of e ''permissions''")
    case None
    then show ?thesis using e by simp
  next
    case (Some v)
    with Cons.prems(2) e have "entry_type e \<noteq> None" by auto
    with Some obtain c p where v: "v = PyStr (c # p)"
      by (auto simp: entry_type_def split: pyval.splits list.splits)
    have "n \<noteq> name" using e Some assms(2,3) by auto
    with Cons.prems(1) have "name \<in> set names" by simp
    from Cons.IH [OF this] Cons.prems(2,3) show ?thesis
      using e Some v by (simp add: first_char_def)
  qed
qed

lemma search_prompt_total: "re_search (lit prompt_line) total_line = None"
  unfolding prompt_line_def total_line_def by code_simp

lemma search_prompt_bin: "re_search (lit prompt_line) bin_line = None"
  unfolding prompt_line_def bin_line_def by code_simp

lemma search_prompt_bcn: "re_search (lit prompt_line) bcn_line = None"
  unfolding prompt_line_def bcn_line_def by code_simp

lemma search_prompt_plain: "re_search (lit prompt_line) plain_line = None"
  unfolding prompt_line_def plain_line_def by code_simp

lemma search_prompt_prompt: "re_search (lit prompt_line) prompt_line = Some []"
  unfolding prompt_line_def by code_simp

lemma search_promptline_total: "re_search re_total prompt_line = None"
  unfolding prompt_line_def by code_simp

lemma search_promptline_links: "re_search re_long_links prompt_line = None"
  unfolding prompt_line_def by code_simp

lemma search_promptline_long: "re_search re_long prompt_line = None"
  unfolding prompt_line_def by code_simp

lemma search_promptline_files: "re_search re_files_list prompt_line = Some []"
  unfolding prompt_line_def by code_simp

lemma search_plain_total: "re_search re_total plain_line = None"
  unfolding plain_line_def by code_simp

lemma search_plain_links: "re_search re_long_links plain_line = None"
  unfolding plain_line_def by code_simp

lemma search_plain_long: "re_search re_long plain_line = None"
  unfolding plain_line_def by code_simp

lemma search_plain_files: "re_search re_files_list plain_line = Some []"
  unfolding plain_line_def by code_simp

lemma split_plain_line: "py_split plain_line = [''.ansible'', ''dot1ag-13.2.tgz'', ''.kde4'']"
  unfolding plain_line_def by code_simp

lemma split_prompt_line: "py_split prompt_line = [''host:~'', ''#'']"
  unfolding prompt_line_def by code_simp

lemma chain_plain:
  "parse_chain plain_line Ls_init = (Inl ParsingDone, plain_listed\<lparr>obs_state := Pending\<rparr>)"
proof -
  have "parse_chain plain_line Ls_init =
      Ls_parse_files_list plain_line (no_match (no_match (no_match Ls_init)))"
    by (rule chain_files_list)
       (simp_all add: search_plain_total search_plain_links search_plain_long)
  also have "\<dots> = (Inl ParsingDone, plain_listed\<lparr>obs_state := Pending\<rparr>)"
    by (subst parse_files_list_value [OF search_plain_files, where fs = "[]"])
       (simp_all add: Ls_init_def RegexHelper_init_def no_match_def split_plain_line
          name_entries_def plain_listed_def)
  finally show ?thesis .
qed

lemma deliver_plain:
  "deliver (lit prompt_line) [(plain_line, True), (prompt_line, False)] Ls_init = plain_listed"
proof -
  have 1: "Ls_on_new_line (GenericUnixCommand_on_new_line (lit prompt_line)) plain_line True Ls_init
      = (Inr (), plain_listed\<lparr>obs_state := Pending\<rparr>)"
    by (simp add: on_new_line_full chain_plain base_no_prompt [OF search_prompt_plain])
  have 2: "Ls_on_new_line (GenericUnixCommand_on_new_line (lit prompt_line)) prompt_line False
        (plain_listed\<lparr>obs_state := Pending\<rparr>) = (Inr (), plain_listed)"
    by (simp add: on_new_line_partial base_prompt search_prompt_prompt plain_listed_def)
  have 3: "\<not> observer_done Ls_init" "\<not> observer_done (plain_listed\<lparr>obs_state := Pending\<rparr>)"
    "observer_done plain_listed"
    by (simp_all add: observer_done_def Ls_init_def plain_listed_def)
  show ?thesis
    by (simp add: 1 2 3)
qed

lemma chain_prompt_line:
  "fst (parse_chain prompt_line Ls_init) = Inl ParsingDone"
  "obs_state (snd (parse_chain prompt_line Ls_init)) = Pending"
  "ret_files (current_ret (snd (parse_chain prompt_line Ls_init))) =
     Some [(''host:~'', [(''name'', PyStr ''host:~'')]), (''#'', [(''name'', PyStr ''#'')])]"
proof -
  have "parse_chain prompt_line Ls_init =
      Ls_parse_files_list prompt_line (no_match (no_match (no_match Ls_init)))"
    by (rule chain_files_list)
       (simp_all add: search_promptline_total search_promptline_links search_promptline_long)
  then have *: "parse_chain prompt_line Ls_init =
     (Inl ParsingDone,
      (no_match (no_match (no_match Ls_init)))
        \<lparr>regex_helper := AList.update ''match'' (MatchObj [])
            (regex_helper (no_match (no_match (no_match Ls_init)))),
         current_ret := (current_ret (no_match (no_match (no_match Ls_init))))
           \<lparr>ret_files := Some (name_entries (py_split prompt_line) [])\<rparr>\<rparr>)"
    by (simp add: parse_files_list_value [OF search_promptline_files, where fs = "[]"]
          Ls_init_def no_match_def)
  show "fst (parse_chain prompt_line Ls_init) = Inl ParsingDone"
    unfolding * by simp
  show "obs_state (snd (parse_chain prompt_line Ls_init)) = Pending"
    unfolding * by (simp add: no_match_def Ls_init_def)
  show "ret_files (current_ret (snd (parse_chain prompt_line Ls_init))) =
     Some [(''host:~'', [(''name'', PyStr ''host:~'')]), (''#'', [(''name'', PyStr ''#'')])]"
    unfolding * by (simp add: split_prompt_line name_entries_def)
qed

lemma unit_index_cases:
  "unit_index u = Some i \<Longrightarrow> u \<in> {[], ''K'', ''M'', ''G'', ''T''}"
  by (auto simp: unit_index_def split: if_splits)

lemma to_bytes_whole:
  assumes "whole \<noteq> []" and "list_all is_digit whole" and "unit_index u = Some i"
  shows "to_bytes (whole @ u) = Inr (of_nat (digits_value whole) * 1024 ^ i)"
proof -
  from unit_index_cases [OF assms(3)]
  have u: "takeWhile is_digit u = []" "dropWhile is_digit u = u"
    "u = [] \<or> (hd u \<noteq> CHR ''.'' \<and> u \<noteq> [])"
    by (auto simp: is_digit_def)
  have w: "\<forall>c\<in>set whole. is_digit c" using assms(2) by (simp add: list_all_iff)
  have tw: "takeWhile is_digit (whole @ u) = whole" and dw: "dropWhile is_digit (whole @ u) = u"
    using w u by (simp_all add: takeWhile_append2 dropWhile_append2)
  show ?thesis
    unfolding to_bytes_def Let_def tw dw
    using assms(1,3) u(3) by (cases u) auto
qed

lemma to_bytes_fraction:
  assumes "whole \<noteq> []" and "list_all is_digit whole" and "list_all is_digit fr"
    and "unit_index u = Some i"
  shows "to_bytes (whole @ CHR ''.'' # fr @ u) =
     Inr (of_nat (digits_value (whole @ fr)) / 10 ^ length fr * 1024 ^ i)"
proof -
  from unit_index_cases [OF assms(4)]
  have u: "takeWhile is_digit u = []" "dropWhile is_digit u = u"
    by (auto simp: is_digit_def)
  have w: "\<forall>c\<in>set whole. is_digit c" and f: "\<forall>c\<in>set fr. is_digit c"
    using assms(2,3) by (simp_all add: list_all_iff)
  have nd: "\<not> is_digit CHR ''.''" by (simp add: is_digit_def)
  have 1: "takeWhile is_digit (whole @ CHR ''.'' # fr @ u) = whole"
    "dropWhile is_digit (whole @ CHR ''.'' # fr @ u) = CHR ''.'' # fr @ u"
    using w nd by (simp_all add: takeWhile_append2 dropWhile_append2)
  have 2: "takeWhile is_digit (fr @ u) = fr" "dropWhile is_digit (fr @ u) = u"
    using f u by (simp_all add: takeWhile_append2 dropWhile_append2)
  show ?thesis
    using assms(1,4) by (simp add: to_bytes_def 1 2 Let_def)
qed

lemma search_human_total: "re_search re_total human_total_line = Some [(1, ''1T'')]"
  unfolding human_total_line_def by code_simp

lemma search_human_file2_total: "re_search re_total human_file2_line = None"
  unfolding human_file2_line_def by code_simp

lemma search_human_file2_links: "re_search re_long_links human_file2_line = None"
  unfolding human_file2_line_def by code_simp

lemma search_human_file2_long:
  "re_search re_long human_file2_line =
     Some [(1, ''-rwxr-xr-x''), (2, ''2''), (3, ''root''), (4, ''root''), (5, ''4.5M''),
           (6, ''Nov 10  2016''), (7, ''file2'')]"
  unfolding human_file2_line_def by code_simp

lemma search_human_file5_long:
  "re_search re_long human_file5_line =
     Some [(1, ''-rwxr-xr-x''), (2, ''2''), (3, ''root''), (4, ''root''), (5, ''92''),
           (6, ''Nov 10  2016''), (7, ''file5'')]"
  unfolding human_file5_line_def by code_simp

lemma to_bytes_examples:
  "to_bytes ''4.5M'' = Inr 4718592" "to_bytes ''1T'' = Inr 1099511627776"
  "to_bytes ''92'' = Inr 92"
  by (simp_all add: size_defs)

lemma only_match_init: "only_match RegexHelper_init"
  by (simp add: only_match_def match_is_data_def RegexHelper_init_def)

lemma only_match_update:
  "only_match h \<Longrightarrow> only_match (AList.update ''match'' (of_match m) h)"
  by (cases m) (simp_all add: only_match_def match_is_data_def update_conv' of_match_def)

lemma only_match_call:
  "only_match h \<Longrightarrow> only_match (snd (call_function f args h))"
  by (cases args)
     (simp_all add: RegexHelper_search_def RegexHelper_search_compiled_def RegexHelper_match_def
        RegexHelper_match_compiled_def Let_def only_match_update)

lemma only_match_invoke:
  "only_match h \<Longrightarrow> only_match (snd (invoke name args h))"
  by (simp add: invoke_def only_match_call split: sum.splits rh_value.splits)

lemma only_match_invoke_all:
  "only_match h \<Longrightarrow> only_match (invoke_all calls h)"
  by (induction calls arbitrary: h) (auto simp: only_match_invoke)

lemma invoke_match_fails:
  "only_match h \<Longrightarrow> invoke ''match'' args h = (Inl TypeError, h)"
  by (auto simp: only_match_def match_is_data_def invoke_def getattr_def
      split: option.splits rh_value.splits)

lemma getattr_methods:
  assumes "only_match h"
    and "name \<in> {''search'', ''search_compiled'', ''match_compiled'', ''get_match'', ''group''}"
  shows "getattr h name = Inr (Function name)"
  using assms by (auto simp: only_match_def getattr_def RegexHelper_class_def)

section \<open>Properties of the runner\<close>

lemma wait_frame:
  "wait fut tick w = (b, w1) \<Longrightarrow>
   call_log w1 = call_log w \<and> in_shutdown w1 = in_shutdown w \<and> i_own_executor w1 = i_own_executor w"
  by (auto simp: wait_def split: option.splits if_splits)

lemma wait_loop_frame_aux:
  assumes "wait_loop obs fut start_time chk tick timeout remain w = Some y"
  shows "call_log (snd y) = call_log w \<and> in_shutdown (snd y) = in_shutdown w
   \<and> i_own_executor (snd y) = i_own_executor w"
  using assms
proof (induction rule: wait_loop.raw_induct [rotated 1, consumes 1])
  case (1 loop obs fut start_time chk tick timeout remain w y)
  obtain b w2 where w: "wait fut tick w = (b, w2)" by (cases "wait fut tick w")
  note f = wait_frame [OF w]
  show ?case
  proof (cases "0 < remain \<and> \<not> b \<and> (chk \<or> timeout \<noteq> None)")
    case False
    with 1(2) w f show ?thesis
      by (auto split: if_splits option.splits)
  next
    case True
    then obtain t where t: "(if chk then Some (obs_timeout obs (clock w2)) else timeout) = Some t"
      by (cases chk) auto
    with 1(2) w True
    have "loop obs fut start_time chk tick (Some t) (t - (clock w2 - start_time)) w2 = Some y"
      by simp
    from 1(1) [OF this] f show ?thesis by simp
  qed
qed

lemma wait_loop_frame:
  "wait_loop obs fut start_time chk tick timeout remain w = Some (ex, w1) \<Longrightarrow>
   call_log w1 = call_log w \<and> in_shutdown w1 = in_shutdown w \<and> i_own_executor w1 = i_own_executor w"
  using wait_loop_frame_aux [of obs fut start_time chk tick timeout remain w "(ex, w1)"]
  by simp

lemma shutdown_sets: "in_shutdown (shutdown w)"
  by (simp add: shutdown_def Let_def)

lemma shutdown_log:
  "call_log (shutdown w) = call_log w @ (if i_own_executor w then [Executor_shutdown] else [])"
  by (simp add: shutdown_def Let_def)

lemma shutdown_clock: "clock (shutdown w) = clock w"
  by (simp add: shutdown_def Let_def)

lemma expire_value:
  "expire obs tmo s w =
     (Inl (if has_command_string obs then CommandTimeout (obs_id obs) tmo (clock w - s)
           else ConnectionObserverTimeout (obs_id obs) tmo (clock w - s)),
      w\<lparr>in_shutdown := True,
         call_log := call_log w @ [Unsubscribe (obs_id obs), Observer_cancel (obs_id obs), Future_cancel]
                  @ (if i_own_executor w then [Executor_shutdown] else [])
                  @ [On_timeout (obs_id obs)]\<rparr>)"
  by (simp add: expire_def shutdown_def Let_def)

lemma wait_for_cases:
  assumes "wait_for obs fut timeout w = Some (r, w')"
  obtains (completed) w1 chk tick rem where
      "wait_loop obs fut (clock w) chk tick timeout rem w = Some (Completed, w1)"
      "r = map_sum Raised_by_future id (outcome fut)" "w' = shutdown w1"
    | (expired) w1 tmo chk tick rem where
      "wait_loop obs fut (clock w) chk tick timeout rem w = Some (Expired tmo, w1)"
      "(r, w') = expire obs tmo (clock w) w1"
    | (none) chk tick rem where
      "wait_loop obs fut (clock w) chk tick timeout rem w = Some (Subtract_None, w')"
      "r = Inl TypeError_None"
  using assms
  by (auto simp: wait_for_def Let_def split: option.splits prod.splits loop_exit.splits if_splits)

lemma wait_never_done:
  "done_at fut = None \<Longrightarrow> wait fut tick w = (False, w\<lparr>clock := clock w + tick\<rparr>)"
  by (simp add: wait_def)

lemma wait_loop_expires:
  assumes nd: "done_at fut = None" and bound: "\<forall>t. obs_timeout obs t \<le> B"
    and inv: "remain \<le> B - (clock w - s)"
  shows "\<exists>tmo w1. wait_loop obs fut s True (1 / 10) timeout remain w = Some (Expired tmo, w1)"
  using inv
proof (induction "nat \<lceil>(B - (clock w - s)) * 10\<rceil>" arbitrary: w remain timeout rule: less_induct)
  case less
  show ?case
  proof (cases "0 < remain")
    case False
    then show ?thesis by (subst wait_loop.simps) simp
  next
    case True
    let ?w1 = "w\<lparr>clock := clock w + 1 / 10\<rparr>"
    let ?t = "obs_timeout obs (clock ?w1)"
    have pos: "0 < (B - (clock w - s)) * 10" using True less.prems by simp
    have eq: "(B - (clock ?w1 - s)) * 10 = (B - (clock w - s)) * 10 - 1"
      by (simp add: algebra_simps)
    have "\<lceil>(B - (clock ?w1 - s)) * 10\<rceil> = \<lceil>(B - (clock w - s)) * 10\<rceil> - 1"
      unfolding eq by (rule ceiling_diff_one)
    moreover have "0 < \<lceil>(B - (clock w - s)) * 10\<rceil>" using pos by simp
    ultimately have m: "nat \<lceil>(B - (clock ?w1 - s)) * 10\<rceil> < nat \<lceil>(B - (clock w - s)) * 10\<rceil>"
      by linarith
    have "?t - (clock ?w1 - s) \<le> B - (clock ?w1 - s)" using bound by simp
    from less.hyps [OF m this]
    obtain tmo w2 where
      "wait_loop obs fut s True (1 / 10) (Some ?t) (?t - (clock ?w1 - s)) ?w1 = Some (Expired tmo, w2)"
      by blast
    then show ?thesis
      using True by (subst wait_loop.simps) (simp add: wait_never_done [OF nd])
  qed
qed

lemma wait_loop_explicit:
  assumes "0 < t"
  shows "wait_loop obs fut (clock w) False t (Some t) t w =
     Some (case wait fut t w of
             (True, w1) \<Rightarrow> (Completed, w1)
           | (False, w1) \<Rightarrow> (Expired (Some t), w1))"
proof (cases "wait fut t w")
  case (Pair b w1)
  show ?thesis
  proof (cases b)
    case True
    with Pair assms show ?thesis by (subst wait_loop.simps) simp
  next
    case False
    with Pair have c: "clock w1 = clock w + t"
      by (auto simp: wait_def split: option.splits if_splits)
    have "wait_loop obs fut (clock w) False t (Some t) (t - (clock w1 - clock w)) w1
        = Some (Expired (Some t), w1)"
      by (subst wait_loop.simps) (simp add: c)
    with Pair False assms show ?thesis by (subst wait_loop.simps) simp
  qed
qed

lemma wait_for_explicit:
  assumes "t \<noteq> 0"
  shows "wait_for obs fut (Some t) w =
     Some (if 0 < t
           then (case wait fut t w of
                   (True, w1) \<Rightarrow> (map_sum Raised_by_future id (outcome fut), shutdown w1)
                 | (False, w1) \<Rightarrow> expire obs (Some t) (clock w) w1)
           else expire obs (Some t) (clock w) w)"
proof (cases "0 < t")
  case True
  then show ?thesis
    using assms
    by (simp add: wait_for_def truthy_timeout_def wait_loop_explicit split: prod.splits bool.splits)
next
  case False
  then have "wait_loop obs fut (clock w) False t (Some t) t w = Some (Expired (Some t), w)"
    by (subst wait_loop.simps) simp
  then show ?thesis
    using assms False by (simp add: wait_for_def truthy_timeout_def)
qed

lemma expire_ignores_timeout_field:
  "expire (obs\<lparr>obs_timeout := f\<rparr>) tmo s w = expire (obs\<lparr>obs_timeout := g\<rparr>) tmo s w"
  by (simp add: expire_value)

lemma explicit_timeout_fixed:
  "t \<noteq> 0 \<Longrightarrow>
   wait_for (obs\<lparr>obs_timeout := f\<rparr>) fut (Some t) w = wait_for (obs\<lparr>obs_timeout := g\<rparr>) fut (Some t) w"
  by (auto simp: wait_for_explicit expire_value split: prod.splits bool.splits)

lemma wait_loop_polls:
  assumes nd: "done_at fut = None"
    and c: "clock w = s + of_nat j / 10" and jk: "j \<le> k"
    and r1: "j < k \<longrightarrow> 0 < remain" and r2: "j = k \<longrightarrow> remain \<le> 0"
    and mid: "\<forall>i. j < i \<and> i < k \<longrightarrow> of_nat i / 10 < obs_timeout obs (s + of_nat i / 10)"
    and last: "j < k \<longrightarrow> obs_timeout obs (s + of_nat k / 10) \<le> of_nat k / 10"
  shows "wait_loop obs fut s True (1 / 10) tmo remain w =
     Some (Expired (if j = k then tmo else Some (obs_timeout obs (s + of_nat k / 10))),
           w\<lparr>clock := s + of_nat k / 10\<rparr>)"
  using c jk r1 r2 mid last
proof (induction "k - j" arbitrary: j w remain tmo)
  case 0
  then have "j = k" by simp
  with 0 show ?case by (subst wait_loop.simps) simp
next
  case (Suc n)
  then have lt: "j < k" by simp
  let ?w1 = "w\<lparr>clock := clock w + 1 / 10\<rparr>"
  have c1: "clock ?w1 = s + of_nat (Suc j) / 10"
    using Suc.prems(1) by (simp add: field_simps)
  let ?t = "obs_timeout obs (clock ?w1)"
  have n: "n = k - Suc j" using Suc.hyps(2) by simp
  have a: "Suc j < k \<longrightarrow> 0 < ?t - (clock ?w1 - s)"
    using Suc.prems(5) lt unfolding c1 by auto
  have b: "Suc j = k \<longrightarrow> ?t - (clock ?w1 - s) \<le> 0"
    using Suc.prems(6) lt unfolding c1 by auto
  have d: "\<forall>i. Suc j < i \<and> i < k \<longrightarrow> of_nat i / 10 < obs_timeout obs (s + of_nat i / 10)"
    using Suc.prems(5) by auto
  have e: "Suc j < k \<longrightarrow> obs_timeout obs (s + of_nat k / 10) \<le> of_nat k / 10"
    using Suc.prems(6) lt by auto
  from Suc.hyps(1) [OF n c1 _ a b d e, of "Some ?t"] lt
  have "wait_loop obs fut s True (1 / 10) (Some ?t) (?t - (clock ?w1 - s)) ?w1 =
     Some (Expired (if Suc j = k then Some ?t else Some (obs_timeout obs (s + of_nat k / 10))),
           ?w1\<lparr>clock := s + of_nat k / 10\<rparr>)"
    by simp
  moreover have "Suc j = k \<Longrightarrow> ?t = obs_timeout obs (s + of_nat k / 10)"
    using c1 by simp
  ultimately show ?case
    using lt Suc.prems(3) by (subst wait_loop.simps) (auto simp: wait_never_done [OF nd])
qed

lemma wait_for_polls:
  assumes nd: "done_at fut = None" and tm: "\<not> truthy_timeout timeout"
    and mid: "\<forall>i<k. of_nat i / 10 < obs_timeout obs (clock w + of_nat i / 10)"
    and last: "obs_timeout obs (clock w + of_nat k / 10) \<le> of_nat k / 10"
  shows "wait_for obs fut timeout w =
     Some (expire obs (if k = 0 then timeout else Some (obs_timeout obs (clock w + of_nat k / 10)))
             (clock w) (w\<lparr>clock := clock w + of_nat k / 10\<rparr>))"
proof -
  have r1: "0 < k \<longrightarrow> 0 < obs_timeout obs (clock w)"
    using mid by force
  have r2: "0 = k \<longrightarrow> obs_timeout obs (clock w) \<le> 0"
    using last by auto
  have "wait_loop obs fut (clock w) True (1 / 10) timeout (obs_timeout obs (clock w)) w =
     Some (Expired (if 0 = k then timeout else Some (obs_timeout obs (clock w + of_nat k / 10))),
           w\<lparr>clock := clock w + of_nat k / 10\<rparr>)"
    by (rule wait_loop_polls [OF nd _ _ r1 r2]) (use mid last in auto)
  then show ?thesis
    using tm by (auto simp: wait_for_def truthy_timeout_def Let_def split: option.splits)
qed


lemma never_done_simps: "done_at never_done = None"
  by (simp add: never_done_def)

lemma polls_two:
  "wait_for (command_observer (\<lambda>t. 1 / 5)) never_done timeout idle_world =
     Some (Inl (CommandTimeout 1 (Some (1 / 5)) (1 / 5)),
           \<lparr>in_shutdown = True, i_own_executor = True, clock = 1 / 5,
            call_log = [Unsubscribe 1, Observer_cancel 1, Future_cancel, Executor_shutdown,
                   On_timeout 1]\<rparr>)"
  if "\<not> truthy_timeout timeout"
proof -
  have "wait_for (command_observer (\<lambda>t. 1 / 5)) never_done timeout idle_world =
     Some (expire (command_observer (\<lambda>t. 1 / 5))
             (if (2::nat) = 0 then timeout
              else Some (obs_timeout (command_observer (\<lambda>t. 1 / 5)) (clock idle_world + of_nat 2 / 10)))
             (clock idle_world) (idle_world\<lparr>clock := clock idle_world + of_nat 2 / 10\<rparr>))"
    by (rule wait_for_polls [OF never_done_simps that])
       (auto simp: command_observer_def less_Suc_eq numeral_2_eq_2)
  then show ?thesis
    by (simp add: expire_value command_observer_def idle_world_def)
qed

lemma polls_three:
  assumes "\<not> truthy_timeout timeout" and "f 0 > 0" and "f (1 / 10) > 1 / 10" and "f (1 / 5) > 1 / 5"
    and "f (3 / 10) = 3 / 10"
  shows "wait_for (command_observer f) never_done timeout idle_world =
     Some (Inl (CommandTimeout 1 (Some (3 / 10)) (3 / 10)),
           \<lparr>in_shutdown = True, i_own_executor = True, clock = 3 / 10,
            call_log = [Unsubscribe 1, Observer_cancel 1, Future_cancel, Executor_shutdown,
                   On_timeout 1]\<rparr>)"
proof -
  have "wait_for (command_observer f) never_done timeout idle_world =
     Some (expire (command_observer f)
             (if (3::nat) = 0 then timeout
              else Some (obs_timeout (command_observer f) (clock idle_world + of_nat 3 / 10)))
             (clock idle_world) (idle_world\<lparr>clock := clock idle_world + of_nat 3 / 10\<rparr>))"
    by (rule wait_for_polls [OF never_done_simps assms(1)])
       (use assms in \<open>auto simp: command_observer_def idle_world_def less_Suc_eq numeral_3_eq_3\<close>)
  then show ?thesis
    using assms(5) by (simp add: expire_value command_observer_def idle_world_def)
qed

lemma feed_iteration_shutdown:
  "in_shutdown w \<Longrightarrow>
   feed_iteration oid False w = (Feed_continue, w\<lparr>call_log := call_log w @ [Observer_cancel oid]\<rparr>)"
  by (simp add: feed_iteration_def)

lemma wait_for_keeps_shutdown:
  assumes "wait_for obs fut timeout w = Some (r, w')" and "in_shutdown w"
  shows "in_shutdown w'"
  using assms(1)
proof (cases rule: wait_for_cases)
  case (completed w1 chk tick rem)
  then show ?thesis by (simp add: shutdown_sets)
next
  case (expired w1 tmo chk tick rem)
  then show ?thesis by (simp add: expire_value)
next
  case (none chk tick rem)
  then show ?thesis
    using assms(2) wait_loop_frame by blast
qed

lemma wait_for_done_future:
  "wait_for (command_observer (\<lambda>t. 20)) (done_future (1 / 20)) None idle_world =
     Some (Inr 7, \<lparr>in_shutdown = True, i_own_executor = True, clock = 1 / 20,
                   call_log = [Executor_shutdown]\<rparr>)"
proof -
  have "wait_loop (command_observer (\<lambda>t. 20)) (done_future (1 / 20)) 0 True (1 / 10) None 20 idle_world
      = Some (Completed, idle_world\<lparr>clock := 1 / 20\<rparr>)"
    by (subst wait_loop.simps) (simp add: wait_def done_future_def idle_world_def)
  then show ?thesis
    by (simp add: wait_for_def command_observer_def idle_world_def shutdown_def done_future_def)
qed

section \<open>The claims\<close>

subsection \<open>C4: the parse chain of \<open>Ls.on_new_line\<close>\<close>



subsection \<open>C1: the canonical long listing\<close>

text \<open>
  Claim C1. The command is fed the lines \<open>total 8\<close>, the entry of directory \<open>bin\<close> and the
  entry of link \<open>bcn -> /bcn\<close> as full lines, then a not yet terminated line the prompt
  pattern matches (the pattern matching none of the three lines). Then the command is done
  and its result has \<open>total.raw = "8"\<close>, \<open>total.bytes = 8\<close>, for \<open>bin\<close> the permissions
  \<open>drwxr-xr-x\<close> and \<open>size_bytes = 4096\<close>, for \<open>bcn\<close> the link \<open>/bcn\<close>;
  \<open>get_dirs()\<close> returns exactly \<open>bin\<close> and \<open>get_links()\<close> exactly \<open>bcn\<close>.
\<close>

theorem canonical_listing_result:
  assumes "re_search p total_line = None" "re_search p bin_line = None"
    "re_search p bcn_line = None" "re_search p pl \<noteq> None"
  shows "let st = deliver p [(total_line, True), (bin_line, True), (bcn_line, True), (pl, False)]
                    Ls_init
         in observer_done st
          \<and> result st = Inr \<lparr>ret_total = Some [(''raw'', PyStr ''8''), (''bytes'', PyNum 8)],
                              ret_files = Some [(''bin'', bin_entry), (''bcn'', bcn_entry)]\<rparr>
          \<and> map_of bin_entry ''permissions'' = Some (PyStr ''drwxr-xr-x'')
          \<and> map_of bin_entry ''size_bytes'' = Some (PyNum 4096)
          \<and> map_of bcn_entry ''link'' = Some (PyStr ''/bcn'')
          \<and> Ls_get_dirs st = (Inr [(''bin'', bin_entry)], st)
          \<and> Ls_get_links st = (Inr [(''bcn'', bcn_entry)], st)"
proof -
  let ?st = "listed\<lparr>obs_state := Done_Success\<rparr>"
  have d: "observer_done ?st" by (simp add: observer_done_def)
  have r: "result ?st = Inr \<lparr>ret_total = Some [(''raw'', PyStr ''8''), (''bytes'', PyNum 8)],
                              ret_files = Some [(''bin'', bin_entry), (''bcn'', bcn_entry)]\<rparr>"
    by (simp add: result_def listed_def)
  have pb: "map_of bin_entry ''permissions'' = Some (PyStr ''drwxr-xr-x'')"
    "map_of bin_entry ''size_bytes'' = Some (PyNum 4096)"
    "map_of bcn_entry ''link'' = Some (PyStr ''/bcn'')"
    "map_of bcn_entry ''permissions'' = Some (PyStr ''lrwxrwxrwx'')"
    by (simp_all add: bin_entry_def bcn_entry_def)
  have gd: "Ls_get_dirs ?st = (Inr [(''bin'', bin_entry)], ?st)"
    by (simp add: Ls_get_dirs_def Ls_get_types_def d r lower_d pb first_char_def)
  have gl: "Ls_get_links ?st = (Inr [(''bcn'', bcn_entry)], ?st)"
    by (simp add: Ls_get_links_def Ls_get_types_def d r lower_l pb first_char_def)
  show ?thesis
    unfolding deliver_listing [OF assms] Let_def
    using d r pb gd gl by simp
qed

theorem canonical_listing_result_witness:
  "re_search (lit prompt_line) total_line = None \<and> re_search (lit prompt_line) bin_line = None
   \<and> re_search (lit prompt_line) bcn_line = None \<and> re_search (lit prompt_line) prompt_line \<noteq> None
   \<and> (let st = deliver (lit prompt_line)
                   [(total_line, True), (bin_line, True), (bcn_line, True), (prompt_line, False)]
                   Ls_init
        in observer_done st
          \<and> result st = Inr \<lparr>ret_total = Some [(''raw'', PyStr ''8''), (''bytes'', PyNum 8)],
                              ret_files = Some [(''bin'', bin_entry), (''bcn'', bcn_entry)]\<rparr>
          \<and> Ls_get_dirs st = (Inr [(''bin'', bin_entry)], st)
          \<and> Ls_get_links st = (Inr [(''bcn'', bcn_entry)], st))"
proof -
  have p: "re_search (lit prompt_line) prompt_line \<noteq> None"
    by (simp add: search_prompt_prompt)
  from canonical_listing_result [OF search_prompt_total search_prompt_bin search_prompt_bcn p]
  show ?thesis
    by (simp add: Let_def search_prompt_total search_prompt_bin search_prompt_bcn p)
qed

subsection \<open>C5: the parent's handler after the parse chain\<close>

text \<open>
  Claim C5 says that the parent's handler runs only when no parse handler consumed the
  line. It does not hold: the full line \<open>host:~ #\<close> is consumed by the files-list handler,
  which records the names \<open>host:~\<close> and \<open>#\<close> and raises \<open>ParsingDone\<close>, and the parent's
  handler still runs on it and marks the command done.
\<close>

theorem consumed_line_reaches_base_counterexample:
  "fst (parse_chain prompt_line Ls_init) = Inl ParsingDone
   \<and> ret_files (current_ret (snd (parse_chain prompt_line Ls_init))) =
       Some [(''host:~'', [(''name'', PyStr ''host:~'')]), (''#'', [(''name'', PyStr ''#'')])]
   \<and> obs_state (snd (parse_chain prompt_line Ls_init)) = Pending
   \<and> obs_state (snd (Ls_on_new_line (GenericUnixCommand_on_new_line (lit prompt_line))
                        prompt_line True Ls_init)) = Done_Success"
proof -
  obtain st where st: "parse_chain prompt_line Ls_init = (Inl ParsingDone, st)"
    using chain_prompt_line(1) by (cases "parse_chain prompt_line Ls_init") auto
  then have "obs_state st = Pending"
    using chain_prompt_line(2) by simp
  then have "obs_state (snd (Ls_on_new_line (GenericUnixCommand_on_new_line (lit prompt_line))
                        prompt_line True Ls_init)) = Done_Success"
    by (simp add: on_new_line_full st base_prompt search_prompt_prompt)
  then show ?thesis
    using chain_prompt_line by simp
qed

text \<open>
  Claim C5 as amended. \<open>on_new_line\<close> calls the parent's handler on every line, full or
  partial, after the parse chain and whether or not a parse handler consumed the line:
  a \<open>ParsingDone\<close> is swallowed before the call. So a line the prompt pattern matches marks
  a pending command done also when a parse handler has claimed it. Only an error other than
  \<open>ParsingDone\<close> raised in the chain leaves \<open>on_new_line\<close> before the parent's handler.
\<close>

theorem on_new_line_always_reaches_base:
  "Ls_on_new_line base line False st = base line False st
   \<and> (fst (parse_chain line st) = Inl ParsingDone \<or> fst (parse_chain line st) = Inr () \<longrightarrow>
        Ls_on_new_line base line True st = base line True (snd (parse_chain line st)))
   \<and> ((fst (parse_chain line st) = Inl ParsingDone \<or> fst (parse_chain line st) = Inr ())
        \<and> re_search p line \<noteq> None \<and> obs_state (snd (parse_chain line st)) = Pending \<longrightarrow>
        obs_state (snd (Ls_on_new_line (GenericUnixCommand_on_new_line p) line True st))
          = Done_Success)
   \<and> (fst (parse_chain line st) = Inl e \<and> e \<noteq> ParsingDone \<longrightarrow>
        Ls_on_new_line base line True st = parse_chain line st)"
  by (cases "parse_chain line st")
     (auto simp: on_new_line_partial on_new_line_full base_prompt split: sum.splits)

theorem on_new_line_always_reaches_base_witness:
  "fst (parse_chain prompt_line Ls_init) = Inl ParsingDone
   \<and> re_search (lit prompt_line) prompt_line \<noteq> None
   \<and> obs_state (snd (parse_chain prompt_line Ls_init)) = Pending
   \<and> Ls_on_new_line (GenericUnixCommand_on_new_line (lit prompt_line)) prompt_line True Ls_init
        = GenericUnixCommand_on_new_line (lit prompt_line) prompt_line True
            (snd (parse_chain prompt_line Ls_init))
   \<and> obs_state (snd (Ls_on_new_line (GenericUnixCommand_on_new_line (lit prompt_line))
                        prompt_line True Ls_init)) = Done_Success"
proof -
  have h: "fst (parse_chain prompt_line Ls_init) = Inl ParsingDone"
    "re_search (lit prompt_line) prompt_line \<noteq> None"
    "obs_state (snd (parse_chain prompt_line Ls_init)) = Pending"
    using chain_prompt_line(1,2) by (simp_all add: search_prompt_prompt)
  from on_new_line_always_reaches_base
      [of "GenericUnixCommand_on_new_line (lit prompt_line)" prompt_line Ls_init
          "lit prompt_line" ParsingDone] h
  have "Ls_on_new_line (GenericUnixCommand_on_new_line (lit prompt_line)) prompt_line True Ls_init
        = GenericUnixCommand_on_new_line (lit prompt_line) prompt_line True
            (snd (parse_chain prompt_line Ls_init))
      \<and> obs_state (snd (Ls_on_new_line (GenericUnixCommand_on_new_line (lit prompt_line))
                        prompt_line True Ls_init)) = Done_Success"
    by blast
  then show ?thesis
    using h by blast
qed

subsection \<open>C6: size tokens\<close>

text \<open>
  Claim C6. The conversion of a size token: a number, with or without a fraction, followed
  by no unit or by K, M, G or T yields exactly the number times \<open>1024\<close> to the power of the
  unit's index (0 for no unit). \<open>4.5M\<close> gives 4718592, \<open>1T\<close> gives 1099511627776 and \<open>92\<close>
  gives 92, and these are the byte counts the handlers of \<open>Ls\<close> store for the line
  \<open>total 1T\<close> and for the long entries of \<open>file2\<close> (4.5M) and \<open>file5\<close> (92).
\<close>

theorem size_token_conversion:
  "(whole \<noteq> [] \<and> list_all is_digit whole \<and> list_all is_digit fr \<and> unit_index u = Some i \<longrightarrow>
      to_bytes (whole @ u) = Inr (of_nat (digits_value whole) * 1024 ^ i)
      \<and> to_bytes (whole @ CHR ''.'' # fr @ u) =
          Inr (of_nat (digits_value (whole @ fr)) / 10 ^ length fr * 1024 ^ i))
   \<and> unit_index [] = Some 0 \<and> unit_index ''K'' = Some 1 \<and> unit_index ''M'' = Some 2
   \<and> unit_index ''G'' = Some 3 \<and> unit_index ''T'' = Some 4
   \<and> to_bytes ''4.5M'' = Inr 4718592
   \<and> to_bytes ''1T'' = Inr 1099511627776
   \<and> to_bytes ''92'' = Inr 92
   \<and> ret_total (current_ret (snd (Ls_parse_total human_total_line Ls_init))) =
       Some [(''raw'', PyStr ''1T''), (''bytes'', PyNum 1099511627776)]
   \<and> (\<exists>d. ret_files (current_ret (snd (Ls_parse_long_file human_file2_line Ls_init))) =
             Some [(''file2'', d)]
          \<and> map_of d ''size_raw'' = Some (PyStr ''4.5M'')
          \<and> map_of d ''size_bytes'' = Some (PyNum 4718592))
   \<and> (\<exists>d. ret_files (current_ret (snd (Ls_parse_long_file human_file5_line Ls_init))) =
             Some [(''file5'', d)]
          \<and> map_of d ''size_raw'' = Some (PyStr ''92'')
          \<and> map_of d ''size_bytes'' = Some (PyNum 92))"
proof -
  have t: "ret_total (current_ret (snd (Ls_parse_total human_total_line Ls_init))) =
       Some [(''raw'', PyStr ''1T''), (''bytes'', PyNum 1099511627776)]"
    by (subst parse_total_value [OF search_human_total, where g = "''1T''" and b = 1099511627776])
       (simp_all add: to_bytes_examples Ls_init_def)
  have f2: "ret_files (current_ret (snd (Ls_parse_long_file human_file2_line Ls_init))) =
       Some [(''file2'', long_entry [(1, ''-rwxr-xr-x''), (2, ''2''), (3, ''root''), (4, ''root''),
          (5, ''4.5M''), (6, ''Nov 10  2016''), (7, ''file2'')] 2 4718592)]"
    by (subst parse_long_file_value [OF search_human_file2_long, where ?g1.0 = "''-rwxr-xr-x''"
          and ?g2.0 = "''2''" and ?g3.0 = "''root''" and ?g4.0 = "''root''" and ?g5.0 = "''4.5M''"
          and ?g6.0 = "''Nov 10  2016''" and ?g7.0 = "''file2''" and n = 2 and b = 4718592
          and fs = "[]"])
       (simp_all add: py_int_2 to_bytes_examples Ls_init_def)
  have f5: "ret_files (current_ret (snd (Ls_parse_long_file human_file5_line Ls_init))) =
       Some [(''file5'', long_entry [(1, ''-rwxr-xr-x''), (2, ''2''), (3, ''root''), (4, ''root''),
          (5, ''92''), (6, ''Nov 10  2016''), (7, ''file5'')] 2 92)]"
    by (subst parse_long_file_value [OF search_human_file5_long, where ?g1.0 = "''-rwxr-xr-x''"
          and ?g2.0 = "''2''" and ?g3.0 = "''root''" and ?g4.0 = "''root''" and ?g5.0 = "''92''"
          and ?g6.0 = "''Nov 10  2016''" and ?g7.0 = "''file5''" and n = 2 and b = 92
          and fs = "[]"])
       (simp_all add: py_int_2 to_bytes_examples Ls_init_def)
  have u: "unit_index [] = Some 0" "unit_index ''K'' = Some 1" "unit_index ''M'' = Some 2"
    "unit_index ''G'' = Some 3" "unit_index ''T'' = Some 4"
    by (simp_all add: unit_index_def)
  show ?thesis
    using to_bytes_whole [of whole u i] to_bytes_fraction [of whole fr u i]
    by (simp add: t f2 f5 u to_bytes_examples long_entry_def)
qed

theorem size_token_conversion_witness:
  "''4'' \<noteq> [] \<and> list_all is_digit ''4'' \<and> list_all is_digit ''5'' \<and> unit_index ''M'' = Some 2
   \<and> to_bytes (''4'' @ ''M'') = Inr (of_nat (digits_value ''4'') * 1024 ^ 2)
   \<and> to_bytes (''4'' @ CHR ''.'' # ''5'' @ ''M'') =
          Inr (of_nat (digits_value (''4'' @ ''5'')) / 10 ^ length ''5'' * 1024 ^ 2)
   \<and> of_nat (digits_value (''4'' @ ''5'')) / 10 ^ length ''5'' * 1024 ^ 2 = (4718592 :: rat)"
proof -
  have h: "list_all is_digit ''4''" "list_all is_digit ''5''" "unit_index ''M'' = Some 2"
    by (simp_all add: is_digit_def unit_index_def)
  have v: "of_nat (digits_value (''4'' @ ''5'')) / 10 ^ length ''5'' * 1024 ^ 2 = (4718592 :: rat)"
    by (simp add: digits_value_def digit_value_def)
  from size_token_conversion [of "''4''" "''5''" "''M''" 2] h
  have "to_bytes (''4'' @ ''M'') = Inr (of_nat (digits_value ''4'') * 1024 ^ 2)
      \<and> to_bytes (''4'' @ CHR ''.'' # ''5'' @ ''M'') =
          Inr (of_nat (digits_value (''4'' @ ''5'')) / 10 ^ length ''5'' * 1024 ^ 2)"
    by blast
  then show ?thesis
    using h v by blast
qed

subsection \<open>C7: the filtering accessors before and after completion\<close>



subsection \<open>C10: entries without \<open>permissions\<close>\<close>

text \<open>
  Claim C10. When the result of a done command holds an entry without a \<open>permissions\<close>
  field, as the files-list handler makes them, \<open>get_dirs()\<close>, \<open>get_links()\<close> and
  \<open>get_files()\<close> raise instead of returning a classification; the error is the
  \<open>KeyError\<close> of the lookup of \<open>permissions\<close> when every entry that has the field holds a
  non-empty text there, which is what the long handlers store.
\<close>

theorem accessors_fail_without_permissions:
  "observer_done st \<and> result st = Inr r \<and> ret_files r = Some fs \<and> map_of fs name = Some d
     \<and> map_of d ''permissions'' = None \<longrightarrow>
   isl (fst (Ls_get_dirs st)) \<and> isl (fst (Ls_get_links st)) \<and> isl (fst (Ls_get_files st))
   \<and> snd (Ls_get_dirs st) = st \<and> snd (Ls_get_links st) = st \<and> snd (Ls_get_files st) = st
   \<and> ((\<forall>(n, e)\<in>set fs. map_of e ''permissions'' = None \<or> entry_type e \<noteq> None) \<longrightarrow>
        Ls_get_dirs st = (Inl (KeyError ''permissions''), st)
        \<and> Ls_get_links st = (Inl (KeyError ''permissions''), st)
        \<and> Ls_get_files st = (Inl (KeyError ''permissions''), st))"
proof (intro impI, elim conjE)
  assume d: "observer_done st" and r: "result st = Inr r" and fs: "ret_files r = Some fs"
    and n: "map_of fs name = Some d" and p: "map_of d ''permissions'' = None"
  have mem: "name \<in> set (map fst fs)"
    using n by (force dest: map_of_SomeD)
  have gt: "\<And>t. Ls_get_types t st = (get_types_loop (lower t) fs (map fst fs) [], st)"
    using d r fs by (simp add: Ls_get_types_def)
  have fail: "\<And>t. isl (fst (Ls_get_types t st))"
    using loop_fails [OF mem n p] by (simp add: gt)
  have key: "\<And>t. \<forall>(n, e)\<in>set fs. map_of e ''permissions'' = None \<or> entry_type e \<noteq> None \<Longrightarrow>
      Ls_get_types t st = (Inl (KeyError ''permissions''), st)"
  proof -
    fix t
    assume wf: "\<forall>(n, e)\<in>set fs. map_of e ''permissions'' = None \<or> entry_type e \<noteq> None"
    have "\<forall>n\<in>set (map fst fs). \<forall>e. map_of fs n = Some e \<longrightarrow>
        map_of e ''permissions'' = None \<or> entry_type e \<noteq> None"
      using wf by (auto dest: map_of_SomeD)
    from loop_fails_KeyError [OF mem n p this]
    show "Ls_get_types t st = (Inl (KeyError ''permissions''), st)"
      by (simp add: gt)
  qed
  show "isl (fst (Ls_get_dirs st)) \<and> isl (fst (Ls_get_links st)) \<and> isl (fst (Ls_get_files st))
   \<and> snd (Ls_get_dirs st) = st \<and> snd (Ls_get_links st) = st \<and> snd (Ls_get_files st) = st
   \<and> ((\<forall>(n, e)\<in>set fs. map_of e ''permissions'' = None \<or> entry_type e \<noteq> None) \<longrightarrow>
        Ls_get_dirs st = (Inl (KeyError ''permissions''), st)
        \<and> Ls_get_links st = (Inl (KeyError ''permissions''), st)
        \<and> Ls_get_files st = (Inl (KeyError ''permissions''), st))"
    using fail key by (simp add: Ls_get_dirs_def Ls_get_links_def Ls_get_files_def gt)
qed

theorem accessors_fail_without_permissions_witness:
  "(let st = deliver (lit prompt_line) [(plain_line, True), (prompt_line, False)] Ls_init;
        fs = [(''.ansible'', [(''name'', PyStr ''.ansible'')]),
              (''dot1ag-13.2.tgz'', [(''name'', PyStr ''dot1ag-13.2.tgz'')]),
              (''.kde4'', [(''name'', PyStr ''.kde4'')])]
    in observer_done st \<and> result st = Inr (current_ret st) \<and> ret_files (current_ret st) = Some fs
       \<and> map_of fs ''.kde4'' = Some [(''name'', PyStr ''.kde4'')]
       \<and> map_of [(''name'', PyStr ''.kde4'')] ''permissions'' = None
       \<and> map_of [(''name'', PyStr ''.ansible'')] ''permissions'' = None
       \<and> map_of [(''name'', PyStr ''dot1ag-13.2.tgz'')] ''permissions'' = None
       \<and> Ls_get_dirs st = (Inl (KeyError ''permissions''), st)
       \<and> Ls_get_links st = (Inl (KeyError ''permissions''), st)
       \<and> Ls_get_files st = (Inl (KeyError ''permissions''), st))"
proof -
  let ?fs = "[(''.ansible'', [(''name'', PyStr ''.ansible'')]),
              (''dot1ag-13.2.tgz'', [(''name'', PyStr ''dot1ag-13.2.tgz'')]),
              (''.kde4'', [(''name'', PyStr ''.kde4'')])]"
  have h: "observer_done plain_listed" "result plain_listed = Inr (current_ret plain_listed)"
    "ret_files (current_ret plain_listed) = Some ?fs"
    "map_of ?fs ''.kde4'' = Some [(''name'', PyStr ''.kde4'')]"
    "map_of [(''name'', PyStr ''.kde4'')] ''permissions'' = None"
    "\<forall>(n, e)\<in>set ?fs. map_of e ''permissions'' = None \<or> entry_type e \<noteq> None"
    "map_of [(''name'', PyStr ''.ansible'')] ''permissions'' = None"
    "map_of [(''name'', PyStr ''dot1ag-13.2.tgz'')] ''permissions'' = None"
    by (simp_all add: observer_done_def result_def plain_listed_def)
  from accessors_fail_without_permissions [of plain_listed "current_ret plain_listed" ?fs
      "''.kde4''" "[(''name'', PyStr ''.kde4'')]"] h
  have "Ls_get_dirs plain_listed = (Inl (KeyError ''permissions''), plain_listed)
        \<and> Ls_get_links plain_listed = (Inl (KeyError ''permissions''), plain_listed)
        \<and> Ls_get_files plain_listed = (Inl (KeyError ''permissions''), plain_listed)"
    by blast
  then show ?thesis
    using h unfolding deliver_plain Let_def by blast
qed

subsection \<open>C9: the attribute \<open>match\<close> of a \<open>RegexHelper\<close>\<close>

text \<open>
  Claim C9. The class body of \<open>RegexHelper\<close> defines a method \<open>match\<close>, but on every
  instance, fresh from the constructor or after any sequence of method calls, the name
  \<open>match\<close> is the instance attribute set by \<open>__init__\<close> and by the matching methods:
  \<open>None\<close> or a match object. Calling \<open>helper.match(...)\<close> therefore raises \<open>TypeError\<close>
  and changes nothing, whatever the arguments. The names \<open>search\<close>, \<open>search_compiled\<close>,
  \<open>match_compiled\<close>, \<open>get_match\<close> and \<open>group\<close> resolve to their methods, and calling
  them runs the method.
\<close>

theorem match_method_shadowed:
  "(let h = invoke_all calls RegexHelper_init
    in map_of RegexHelper_class ''match'' = Some (Function ''match'')
     \<and> (getattr h ''match'' = Inr NoneObj \<or> (\<exists>m. getattr h ''match'' = Inr (MatchObj m)))
     \<and> invoke ''match'' args h = (Inl TypeError, h)
     \<and> (\<forall>name\<in>{''search'', ''search_compiled'', ''match_compiled'', ''get_match'', ''group''}.
           getattr h name = Inr (Function name))
     \<and> invoke ''search'' (PatternString r s) h =
          (Inr (Value (of_match (re_search r s))), AList.update ''match'' (of_match (re_search r s)) h)
     \<and> invoke ''search_compiled'' (PatternString r s) h =
          (Inr (Value (of_match (re_search r s))), AList.update ''match'' (of_match (re_search r s)) h)
     \<and> invoke ''match_compiled'' (PatternString r s) h =
          (Inr (Value (of_match (re_match r s []))),
           AList.update ''match'' (of_match (re_match r s [])) h)
     \<and> invoke ''get_match'' NoArgs h = (map_sum id Value (getattr h ''match''), h)
     \<and> invoke ''group'' (Number n) h = (map_sum id Text (RegexHelper_group n h), h))"
proof -
  define h where "h = invoke_all calls RegexHelper_init"
  have om: "only_match h"
    unfolding h_def by (rule only_match_invoke_all [OF only_match_init])
  have g: "\<forall>name\<in>{''search'', ''search_compiled'', ''match_compiled'', ''get_match'', ''group''}.
           getattr h name = Inr (Function name)"
    using getattr_methods [OF om] by blast
  have m: "getattr h ''match'' = Inr NoneObj \<or> (\<exists>m. getattr h ''match'' = Inr (MatchObj m))"
    using om by (auto simp: only_match_def match_is_data_def getattr_def
        split: option.splits rh_value.splits)
  have c: "map_of RegexHelper_class ''match'' = Some (Function ''match'')"
    by (simp add: RegexHelper_class_def)
  have i: "invoke ''search'' (PatternString r s) h =
          (Inr (Value (of_match (re_search r s))), AList.update ''match'' (of_match (re_search r s)) h)"
    "invoke ''search_compiled'' (PatternString r s) h =
          (Inr (Value (of_match (re_search r s))), AList.update ''match'' (of_match (re_search r s)) h)"
    "invoke ''match_compiled'' (PatternString r s) h =
          (Inr (Value (of_match (re_match r s []))),
           AList.update ''match'' (of_match (re_match r s [])) h)"
    "invoke ''get_match'' NoArgs h = (map_sum id Value (getattr h ''match''), h)"
    "invoke ''group'' (Number n) h = (map_sum id Text (RegexHelper_group n h), h)"
    using g by (simp_all add: invoke_def RegexHelper_search_def RegexHelper_search_compiled_def
        RegexHelper_match_compiled_def RegexHelper_get_match_def Let_def)
  show ?thesis
    unfolding Let_def h_def [symmetric]
    using c m g i invoke_match_fails [OF om] by blast
qed

theorem match_method_shadowed_witness:
  "(let h = invoke_all [(''search_compiled'', PatternString re_total total_line)] RegexHelper_init
    in h = [(''match'', MatchObj [(1, ''8'')])]
     \<and> getattr h ''search_compiled'' = Inr (Function ''search_compiled'')
     \<and> getattr h ''group'' = Inr (Function ''group'')
     \<and> invoke ''match'' (PatternString re_total total_line) h = (Inl TypeError, h)
     \<and> invoke ''match'' (PatternString re_total total_line) RegexHelper_init =
          (Inl TypeError, RegexHelper_init)
     \<and> invoke ''group'' (Number 1) h = (Inr (Text ''8''), h))"
proof -
  have h: "invoke_all [(''search_compiled'', PatternString re_total total_line)] RegexHelper_init
      = [(''match'', MatchObj [(1, ''8'')])]"
    by (simp add: invoke_def getattr_def RegexHelper_init_def RegexHelper_class_def
          RegexHelper_search_compiled_def search_total_line of_match_def Let_def)
  have g: "RegexHelper_group 1 [(''match'', MatchObj [(1, ''8'')])] = Inr ''8''"
    by (simp add: RegexHelper_group_def getattr_def)
  let ?h = "[(''match'', MatchObj [(1, ''8'')])]"
  from match_method_shadowed
      [of "[(''search_compiled'', PatternString re_total total_line)]"
          "PatternString re_total total_line" re_total total_line 1]
  have a: "(\<forall>name\<in>{''search'', ''search_compiled'', ''match_compiled'', ''get_match'', ''group''}.
           getattr ?h name = Inr (Function name))
     \<and> invoke ''match'' (PatternString re_total total_line) ?h = (Inl TypeError, ?h)
     \<and> invoke ''group'' (Number 1) ?h = (map_sum id Text (RegexHelper_group 1 ?h), ?h)"
    unfolding Let_def h by (elim conjE, intro conjI) assumption+
  from match_method_shadowed [of "[]" "PatternString re_total total_line" re_total total_line 1]
  have b: "invoke ''match'' (PatternString re_total total_line) RegexHelper_init =
          (Inl TypeError, RegexHelper_init)"
    unfolding Let_def invoke_all.simps by (elim conjE)
  have c: "invoke ''group'' (Number 1) ?h = (Inr (Text ''8''), ?h)"
    using a g by simp
  have d: "getattr ?h ''search_compiled'' = Inr (Function ''search_compiled'')"
    "getattr ?h ''group'' = Inr (Function ''group'')"
    using a by simp_all
  show ?thesis
    unfolding Let_def h using a b c d by (elim conjE, intro conjI) (assumption | rule refl)+
qed

subsection \<open>C2: what \<open>wait_for\<close> does when the deadline expires\<close>

text \<open>
  Claim C2. Whenever \<open>wait_for\<close> raises one of its timeout errors, the calls it made from
  the end of the loop to the raise are, in this order: the unsubscription of the observer's
  \<open>data_received\<close> from its connection, the cancellation of the observer, the cancellation
  of the future, the shutdown of the runner (which stops the executor when the runner owns
  it) and \<open>on_timeout\<close> of the observer; nothing else was called before. The error is
  \<open>CommandTimeout\<close> when the observer has a \<open>command_string\<close> and
  \<open>ConnectionObserverTimeout\<close> otherwise, and carries the time passed since \<open>wait_for\<close>
  started. And the deadline does expire with such an error whenever the future never
  completes and the observer's timeout stays below some bound.
\<close>

theorem wait_for_timeout_order:
  "(wait_for obs fut timeout w = Some (Inl err, w') \<and> timeout_of err \<longrightarrow>
      (\<exists>tmo. err = (if has_command_string obs
                     then CommandTimeout (obs_id obs) tmo (clock w' - clock w)
                     else ConnectionObserverTimeout (obs_id obs) tmo (clock w' - clock w)))
      \<and> call_log w' = call_log w @ [Unsubscribe (obs_id obs), Observer_cancel (obs_id obs), Future_cancel]
                    @ (if i_own_executor w then [Executor_shutdown] else [])
                    @ [On_timeout (obs_id obs)]
      \<and> in_shutdown w')
   \<and> (done_at fut = None \<and> (\<forall>t. obs_timeout obs t \<le> B) \<longrightarrow>
        (\<exists>e w1. wait_for obs fut timeout w = Some (Inl e, w1) \<and> timeout_of e))"
proof (intro conjI impI)
  assume a: "wait_for obs fut timeout w = Some (Inl err, w') \<and> timeout_of err"
  then have wf: "wait_for obs fut timeout w = Some (Inl err, w')" and te: "timeout_of err"
    by simp_all
  from wf obtain w1 tmo chk tick rem where
    l: "wait_loop obs fut (clock w) chk tick timeout rem w = Some (Expired tmo, w1)"
    and e: "(Inl err, w') = (expire obs tmo (clock w) w1 :: ('a failure + 'b) \<times> world)"
  proof (cases rule: wait_for_cases)
    case (completed w1 chk tick rem)
    then have False using te by (cases "outcome fut") (auto simp: timeout_of_def)
    then show ?thesis ..
  next
    case (expired w1 tmo chk tick rem)
    then show ?thesis using that by blast
  next
    case (none chk tick rem)
    then have False using te by (simp add: timeout_of_def)
    then show ?thesis ..
  qed
  note f = wait_loop_frame [OF l]
  from e have err: "err = (if has_command_string obs then CommandTimeout (obs_id obs) tmo (clock w1 - clock w)
           else ConnectionObserverTimeout (obs_id obs) tmo (clock w1 - clock w))"
    and w': "w' = w1\<lparr>in_shutdown := True,
         call_log := call_log w1 @ [Unsubscribe (obs_id obs), Observer_cancel (obs_id obs), Future_cancel]
                  @ (if i_own_executor w1 then [Executor_shutdown] else [])
                  @ [On_timeout (obs_id obs)]\<rparr>"
    by (simp_all add: expire_value)
  have c: "clock w' = clock w1" using w' by simp
  show "\<exists>tmo. err = (if has_command_string obs
                     then CommandTimeout (obs_id obs) tmo (clock w' - clock w)
                     else ConnectionObserverTimeout (obs_id obs) tmo (clock w' - clock w))"
    using err c by auto
  show "call_log w' = call_log w @ [Unsubscribe (obs_id obs), Observer_cancel (obs_id obs), Future_cancel]
                    @ (if i_own_executor w then [Executor_shutdown] else [])
                    @ [On_timeout (obs_id obs)]"
    using w' f by simp
  show "in_shutdown w'" using w' by simp
next
  assume a: "done_at fut = None \<and> (\<forall>t. obs_timeout obs t \<le> B)"
  then have nd: "done_at fut = None" and b: "\<forall>t. obs_timeout obs t \<le> B" by simp_all
  show "\<exists>e w1. wait_for obs fut timeout w = Some (Inl e, w1) \<and> timeout_of e"
  proof (cases "truthy_timeout timeout")
    case True
    then obtain t where t: "timeout = Some t" "t \<noteq> 0"
      by (auto simp: truthy_timeout_def split: option.splits)
    show ?thesis
      unfolding t(1) wait_for_explicit [OF t(2)]
      by (auto simp: wait_never_done [OF nd] expire_value timeout_of_def)
  next
    case False
    have "obs_timeout obs (clock w) \<le> B - (clock w - clock w)" using b by simp
    from wait_loop_expires [OF nd b this, of timeout]
    obtain tmo w1 where
      "wait_loop obs fut (clock w) True (1 / 10) timeout (obs_timeout obs (clock w)) w
         = Some (Expired tmo, w1)" by blast
    then have "wait_for obs fut timeout w = Some (expire obs tmo (clock w) w1)"
      using False by (auto simp: wait_for_def truthy_timeout_def Let_def split: option.splits)
    then show ?thesis
      by (auto simp: expire_value timeout_of_def)
  qed
qed

theorem wait_for_timeout_order_witness:
  "wait_for (command_observer (\<lambda>t. 1 / 5)) never_done None idle_world =
     Some (Inl (CommandTimeout 1 (Some (1 / 5)) (1 / 5)),
           \<lparr>in_shutdown = True, i_own_executor = True, clock = 1 / 5,
            call_log = [Unsubscribe 1, Observer_cancel 1, Future_cancel, Executor_shutdown,
                   On_timeout 1]\<rparr>)
   \<and> timeout_of (CommandTimeout 1 (Some (1 / 5)) (1 / 5) :: unit failure)
   \<and> call_log \<lparr>in_shutdown = True, i_own_executor = True, clock = 1 / 5,
            call_log = [Unsubscribe 1, Observer_cancel 1, Future_cancel, Executor_shutdown,
                   On_timeout 1]\<rparr>
       = call_log idle_world @ [Unsubscribe (obs_id (command_observer (\<lambda>t. 1 / 5))),
            Observer_cancel (obs_id (command_observer (\<lambda>t. 1 / 5))), Future_cancel]
          @ (if i_own_executor idle_world then [Executor_shutdown] else [])
          @ [On_timeout (obs_id (command_observer (\<lambda>t. 1 / 5)))]
   \<and> done_at never_done = None
   \<and> (\<exists>e w1. wait_for (command_observer (\<lambda>t. 1 / 5)) never_done None idle_world
                = Some (Inl e, w1) \<and> timeout_of e)"
proof -
  let ?w = "\<lparr>in_shutdown = True, i_own_executor = True, clock = 1 / 5,
            call_log = [Unsubscribe 1, Observer_cancel 1, Future_cancel, Executor_shutdown,
                   On_timeout 1]\<rparr>"
  have p: "wait_for (command_observer (\<lambda>t. 1 / 5)) never_done None idle_world =
     Some (Inl (CommandTimeout 1 (Some (1 / 5)) (1 / 5)), ?w)"
    by (rule polls_two) (simp add: truthy_timeout_def)
  have t: "timeout_of (CommandTimeout 1 (Some (1 / 5)) (1 / 5) :: unit failure)"
    by (simp add: timeout_of_def)
  have b: "\<forall>t. obs_timeout (command_observer (\<lambda>t. 1 / 5)) t \<le> 1 / 5"
    by (simp add: command_observer_def)
  note inst = wait_for_timeout_order [of "command_observer (\<lambda>t. 1 / 5)" never_done None idle_world
      "CommandTimeout 1 (Some (1 / 5)) (1 / 5)" ?w "1 / 5"]
  from inst p t have l: "call_log ?w = call_log idle_world @ [Unsubscribe (obs_id (command_observer (\<lambda>t. 1 / 5))),
            Observer_cancel (obs_id (command_observer (\<lambda>t. 1 / 5))), Future_cancel]
          @ (if i_own_executor idle_world then [Executor_shutdown] else [])
          @ [On_timeout (obs_id (command_observer (\<lambda>t. 1 / 5)))]"
    by blast
  from inst b never_done_simps
  have e: "\<exists>e w1. wait_for (command_observer (\<lambda>t. 1 / 5)) never_done None idle_world
                = Some (Inl e, w1) \<and> timeout_of e"
    by blast
  show ?thesis
    using p t l b e never_done_simps by blast
qed

subsection \<open>C3: the deadline, with and without an explicit timeout\<close>

text \<open>
  Claim C3 says that an explicit timeout fixes the deadline. With the explicit timeout 0
  the code does not do that: \<open>if timeout:\<close> takes 0 for no timeout, so the wait follows the
  observer's timeout field and re-reads it on every tick. Below, a future that never
  completes is awaited with \<open>timeout=0\<close>: the wait lasts 0.2 seconds when
  the field holds 0.2, and 0.3 seconds when the field is raised from 0.2 to 0.3 during the
  wait; the error carries the observer's value, not 0.
\<close>

theorem explicit_zero_timeout_follows_observer:
  "wait_for (command_observer (\<lambda>t. 1 / 5)) never_done (Some 0) idle_world =
     Some (Inl (CommandTimeout 1 (Some (1 / 5)) (1 / 5)),
           \<lparr>in_shutdown = True, i_own_executor = True, clock = 1 / 5,
            call_log = [Unsubscribe 1, Observer_cancel 1, Future_cancel, Executor_shutdown,
                   On_timeout 1]\<rparr>)
   \<and> wait_for (command_observer (\<lambda>t. if t < 1 / 10 then 1 / 5 else 3 / 10)) never_done (Some 0)
        idle_world =
     Some (Inl (CommandTimeout 1 (Some (3 / 10)) (3 / 10)),
           \<lparr>in_shutdown = True, i_own_executor = True, clock = 3 / 10,
            call_log = [Unsubscribe 1, Observer_cancel 1, Future_cancel, Executor_shutdown,
                   On_timeout 1]\<rparr>)"
proof -
  have z: "\<not> truthy_timeout (Some 0)" by (simp add: truthy_timeout_def)
  show ?thesis
    by (simp add: polls_two [OF z] polls_three [OF z])
qed

text \<open>
  The rest of the claim holds (lemmas \<open>explicit_timeout_fixed\<close>, \<open>wait_for_explicit\<close> and
  \<open>wait_for_polls\<close> above): an explicit timeout other than 0 makes the outcome independent of
  the observer's timeout field, and without one the wait ends at the first tick at which the
  value then read from the field is no more than the time passed.
\<close>

subsection \<open>C8: completion shuts the runner down\<close>

text \<open>
  Claim C8. When \<open>wait_for\<close> returns because the awaited future completed (with the
  future's result or with the exception \<open>result()\<close> raised), it has called \<open>shutdown()\<close>
  on the runner before: \<open>_in_shutdown\<close> is set, and nothing but the executor's shutdown
  was called. From then on a pass of the \<open>feed\<close> loop of any observer that is not done
  cancels that observer, and no operation of the runner resets the flag. Without the flag
  such a pass cancels nothing.
\<close>

theorem completion_shuts_down_runner:
  "(wait_for obs fut timeout w = Some (r, w') \<and> (\<not> isl r \<or> (\<exists>e. r = Inl (Raised_by_future e))) \<longrightarrow>
      r = map_sum Raised_by_future id (outcome fut)
      \<and> in_shutdown w'
      \<and> call_log w' = call_log w @ (if i_own_executor w then [Executor_shutdown] else [])
      \<and> (\<forall>oid. feed_iteration oid False w' =
                  (Feed_continue, w'\<lparr>call_log := call_log w' @ [Observer_cancel oid]\<rparr>)))
   \<and> (in_shutdown w \<longrightarrow>
        in_shutdown (shutdown w) \<and> in_shutdown (snd (feed_iteration oid d w))
        \<and> (wait_for obs fut timeout w = Some (r, w') \<longrightarrow> in_shutdown w'))
   \<and> (\<not> in_shutdown w \<longrightarrow> feed_iteration oid False w = (Feed_continue, w))"
proof (intro conjI impI)
  assume a: "wait_for obs fut timeout w = Some (r, w') \<and> (\<not> isl r \<or> (\<exists>e. r = Inl (Raised_by_future e)))"
  then have wf: "wait_for obs fut timeout w = Some (r, w')"
    and c: "\<not> isl r \<or> (\<exists>e. r = Inl (Raised_by_future e))" by simp_all
  from wf obtain w1 chk tick rem where
    l: "wait_loop obs fut (clock w) chk tick timeout rem w = Some (Completed, w1)"
    and r: "r = map_sum Raised_by_future id (outcome fut)" and w': "w' = shutdown w1"
  proof (cases rule: wait_for_cases)
    case (completed w1 chk tick rem)
    then show ?thesis using that by blast
  next
    case (expired w1 tmo chk tick rem)
    then have False using c by (auto simp: expire_value split: if_splits)
    then show ?thesis ..
  next
    case (none chk tick rem)
    then have False using c by auto
    then show ?thesis ..
  qed
  note f = wait_loop_frame [OF l]
  show "r = map_sum Raised_by_future id (outcome fut)" by (rule r)
  show s: "in_shutdown w'" unfolding w' by (rule shutdown_sets)
  show "call_log w' = call_log w @ (if i_own_executor w then [Executor_shutdown] else [])"
    unfolding w' using f by (simp add: shutdown_log)
  show "\<forall>oid. feed_iteration oid False w' =
                  (Feed_continue, w'\<lparr>call_log := call_log w' @ [Observer_cancel oid]\<rparr>)"
    using s by (simp add: feed_iteration_shutdown)
next
  assume "in_shutdown w"
  then show "in_shutdown (shutdown w)" by (simp add: shutdown_sets)
next
  assume "in_shutdown w"
  then show "in_shutdown (snd (feed_iteration oid d w))" by (simp add: feed_iteration_def)
next
  assume "in_shutdown w" and "wait_for obs fut timeout w = Some (r, w')"
  then show "in_shutdown w'" by (rule wait_for_keeps_shutdown [rotated])
next
  assume "\<not> in_shutdown w"
  then show "feed_iteration oid False w = (Feed_continue, w)" by (simp add: feed_iteration_def)
qed

theorem completion_shuts_down_runner_witness:
  "(let w' = \<lparr>in_shutdown = True, i_own_executor = True, clock = 1 / 20, call_log = [Executor_shutdown]\<rparr>
    in wait_for (command_observer (\<lambda>t. 20)) (done_future (1 / 20)) None idle_world = Some (Inr 7, w')
     \<and> \<not> isl (Inr 7 :: unit failure + nat)
     \<and> \<not> in_shutdown idle_world
     \<and> feed_iteration 5 False idle_world = (Feed_continue, idle_world)
     \<and> in_shutdown w'
     \<and> feed_iteration 5 False w' =
         (Feed_continue, w'\<lparr>call_log := [Executor_shutdown, Observer_cancel 5]\<rparr>)
     \<and> in_shutdown (snd (feed_iteration 5 False w')))"
proof -
  let ?w = "\<lparr>in_shutdown = True, i_own_executor = True, clock = 1 / 20, call_log = [Executor_shutdown]\<rparr>"
  note a = completion_shuts_down_runner [of "command_observer (\<lambda>t. 20)" "done_future (1 / 20)" None
      idle_world "Inr 7" ?w 5 False]
  note b = completion_shuts_down_runner [of "command_observer (\<lambda>t. 20)" "done_future (1 / 20)" None
      ?w "Inr 7" ?w 5 False]
  have i: "\<not> isl (Inr 7 :: unit failure + nat)" "\<not> in_shutdown idle_world"
    by (simp_all add: idle_world_def)
  from a wait_for_done_future i have 1: "in_shutdown ?w"
    "feed_iteration 5 False ?w = (Feed_continue, ?w\<lparr>call_log := call_log ?w @ [Observer_cancel 5]\<rparr>)"
    "feed_iteration 5 False idle_world = (Feed_continue, idle_world)"
    by blast+
  from b 1(1) have 2: "in_shutdown (snd (feed_iteration 5 False ?w))"
    by blast
  show ?thesis
    unfolding Let_def using wait_for_done_future i 1 2 by simp
qed

end
